theory Spec2Isabelle
  imports Main "HOL-Library.Word"
begin

unbundle bit_operations_syntax

section \<open>Data model of scan.c\<close>

text \<open>
  The embedding follows \<^verbatim>\<open>src/scan.c\<close>. The structures \<^verbatim>\<open>struct transponder\<close>,
  \<^verbatim>\<open>struct service\<close> and \<^verbatim>\<open>struct section_buf\<close> are declared in \<^verbatim>\<open>scan.h\<close>; the
  records below carry the members that \<^verbatim>\<open>scan.c\<close> reads or writes in the functions
  embedded here. The list type \<^verbatim>\<open>cList\<close> with \<^verbatim>\<open>NewList\<close>, \<^verbatim>\<open>AddItem\<close>,
  \<^verbatim>\<open>UnlinkItem\<close> and \<^verbatim>\<open>InsertItem\<close> lives in \<^verbatim>\<open>tools.c\<close>. A list whose items
  are on no other list is a HOL list in insertion order; the transponders, which are on
  three lists at once, have their links modelled in the last section.
\<close>

type_synonym u8 = "8 word"
type_synonym u16 = "16 word"
type_synonym u32 = "32 word"

text \<open>\<^verbatim>\<open>scantype_t\<close>: the four values named in \<^verbatim>\<open>scan.c\<close>.\<close>

datatype scantype = SCAN_TERRESTRIAL | SCAN_CABLE | SCAN_SATELLITE | SCAN_TERRCABLE_ATSC

text \<open>
  Delivery systems of \<^verbatim>\<open>linux/dvb/frontend.h\<close>, numbered as the \<^verbatim>\<open>dname\<close> table in
  \<^verbatim>\<open>fe_supports_scan\<close> lists them.
\<close>

definition SYS_DVBC_ANNEX_A :: u32 where "SYS_DVBC_ANNEX_A = 1"
definition SYS_DVBT :: u32 where "SYS_DVBT = 3"
definition SYS_ATSC :: u32 where "SYS_ATSC = 11"
definition SYS_DVBT2 :: u32 where "SYS_DVBT2 = 16"
definition SYS_DVBC_ANNEX_C :: u32 where "SYS_DVBC_ANNEX_C = 18"

text \<open>
  A service of a transponder. \<open>priv\<close> is the pointer to the service's PMT section
  filter: \<open>None\<close> is \<^verbatim>\<open>NULL\<close>, \<open>Some a\<close> the address of a \<^verbatim>\<open>section_buf\<close>.
\<close>

record service =
  service_id :: u16
  pmt_pid :: u16
  running :: u8
  scrambled :: u8
  service_name :: "string option"
  provider_name :: "string option"
  priv :: "nat option"

text \<open>\<^verbatim>\<open>struct cell\<close>: the centre frequencies stored so far.\<close>

record cell =
  center_frequencies :: "u32 list"

record transponder =
  type :: scantype
  delsys :: u32
  frequency :: u32
  polarization :: u8
  source :: u32
  locks_with_params :: bool
  original_network_id :: u16
  network_id :: u16
  transport_stream_id :: u16
  network_PID :: u16
  network_name :: "string option"
  inversion :: nat
  bandwidth :: u32
  symbolrate :: u32
  coderate :: nat
  coderate_LP :: nat
  modulation :: nat
  transmission :: nat
  guard :: nat
  hierarchy :: nat
  plp_id :: nat
  services :: "service list"
  cells :: "cell list"

text \<open>\<^verbatim>\<open>calloc(1, sizeof(struct transponder))\<close>: every member zero.\<close>

definition calloc_transponder :: transponder where
  "calloc_transponder =
     \<lparr>type = SCAN_TERRESTRIAL, delsys = 0, frequency = 0, polarization = 0, source = 0,
      locks_with_params = False, original_network_id = 0, network_id = 0,
      transport_stream_id = 0, network_PID = 0, network_name = None, inversion = 0,
      bandwidth = 0, symbolrate = 0, coderate = 0, coderate_LP = 0, modulation = 0,
      transmission = 0, guard = 0, hierarchy = 0, plp_id = 0, services = [], cells = []\<rparr>"

text \<open>
  The transponder store. \<open>heap\<close> holds every transponder allocated so far; the address
  of a transponder is its index there, and \<^verbatim>\<open>calloc\<close> (assumed to succeed) hands out
  the next index. The three global lists and \<^verbatim>\<open>current_tp\<close> hold addresses.
\<close>

record scan_state =
  heap :: "transponder list"
  new_transponders :: "nat list"
  scanned_transponders :: "nat list"
  output_transponders :: "nat list"
  current_tp :: nat

section \<open>alloc_transponder\<close>

text \<open>The \<^verbatim>\<open>switch(delsys)\<close> that sets \<^verbatim>\<open>t->type\<close>.\<close>

definition delsys_type :: "u32 \<Rightarrow> scantype" where
  "delsys_type d =
     (if d = SYS_DVBT \<or> d = SYS_DVBT2 then SCAN_TERRESTRIAL
      else if d = SYS_ATSC then SCAN_TERRCABLE_ATSC
      else if d = SYS_DVBC_ANNEX_A \<or> d = SYS_DVBC_ANNEX_C then SCAN_CABLE
      else SCAN_SATELLITE)"


text \<open>The transponder \<^verbatim>\<open>t\<close> as \<^verbatim>\<open>alloc_transponder\<close> fills it in.\<close>

definition new_transponder :: "u32 \<Rightarrow> u32 \<Rightarrow> u8 \<Rightarrow> transponder" where
  "new_transponder f d pol =
     calloc_transponder\<lparr>source := 0, frequency := f, locks_with_params := False,
       delsys := d, polarization := pol, type := delsys_type d,
       cells := [\<lparr>center_frequencies = [f]\<rparr>], services := [], network_name := None\<rparr>"




lemma new_transponder_sel [simp]:
  "delsys (new_transponder f d pol) = d"
  "type (new_transponder f d pol) = delsys_type d"
  "frequency (new_transponder f d pol) = f"
  "polarization (new_transponder f d pol) = pol"
  "services (new_transponder f d pol) = []"
  by (simp_all add: new_transponder_def)






section \<open>Descriptor loops\<close>

text \<open>
  Modelled from the spec: \<^verbatim>\<open>si_types.h\<close> with \<^verbatim>\<open>enum table_id\<close> is not part of the
  sources at hand; the table ids are those of section 4.4 of the specification
  (ISO/IEC 13818-1, EN 300 468). \<^verbatim>\<open>s->table_id\<close> is an \<^verbatim>\<open>int\<close>.
\<close>

definition TABLE_PAT :: int where "TABLE_PAT = 0x00"
definition TABLE_PMT :: int where "TABLE_PMT = 0x02"
definition TABLE_NIT_ACT :: int where "TABLE_NIT_ACT = 0x40"
definition TABLE_NIT_OTH :: int where "TABLE_NIT_OTH = 0x41"
definition TABLE_SDT_ACT :: int where "TABLE_SDT_ACT = 0x42"
definition TABLE_SDT_OTH :: int where "TABLE_SDT_OTH = 0x46"
definition TABLE_VCT_TERR :: int where "TABLE_VCT_TERR = 0xC8"
definition TABLE_VCT_CABLE :: int where "TABLE_VCT_CABLE = 0xC9"

text \<open>
  Modelled from the spec: \<^verbatim>\<open>descriptors.h\<close> is not part of the sources at hand; the
  descriptor tags are those of the table in section 4.5 of the specification and of
  EN 300 468 (tags and extension tags). Only the tags for which the \<^verbatim>\<open>switch\<close> of
  \<^verbatim>\<open>parse_descriptors\<close> calls a parser are needed: every other \<^verbatim>\<open>case\<close> and the
  \<^verbatim>\<open>default\<close> do nothing but log.
\<close>

definition ca_descriptor :: u8 where "ca_descriptor = 0x09"
definition iso_639_language_descriptor :: u8 where "iso_639_language_descriptor = 0x0A"
definition network_name_descriptor :: u8 where "network_name_descriptor = 0x40"
definition satellite_delivery_system_descriptor :: u8 where
  "satellite_delivery_system_descriptor = 0x43"
definition cable_delivery_system_descriptor :: u8 where "cable_delivery_system_descriptor = 0x44"
definition service_descriptor :: u8 where "service_descriptor = 0x48"
definition ca_identifier_descriptor :: u8 where "ca_identifier_descriptor = 0x53"
definition content_descriptor :: u8 where "content_descriptor = 0x54"
definition parental_rating_descriptor :: u8 where "parental_rating_descriptor = 0x55"
definition teletext_descriptor :: u8 where "teletext_descriptor = 0x56"
definition telephone_descriptor :: u8 where "telephone_descriptor = 0x57"
definition local_time_offset_descriptor :: u8 where "local_time_offset_descriptor = 0x58"
definition subtitling_descriptor :: u8 where "subtitling_descriptor = 0x59"
definition terrestrial_delivery_system_descriptor :: u8 where
  "terrestrial_delivery_system_descriptor = 0x5A"
definition frequency_list_descriptor :: u8 where "frequency_list_descriptor = 0x62"
definition s2_satellite_delivery_system_descriptor :: u8 where
  "s2_satellite_delivery_system_descriptor = 0x79"
definition extension_descriptor :: u8 where "extension_descriptor = 0x7F"
definition logical_channel_descriptor :: u8 where "logical_channel_descriptor = 0x83"
definition T2_delivery_system_descriptor :: u8 where "T2_delivery_system_descriptor = 0x04"
definition SH_delivery_system_descriptor :: u8 where "SH_delivery_system_descriptor = 0x05"
definition network_change_notify_descriptor :: u8 where
  "network_change_notify_descriptor = 0x07"
definition C2_delivery_system_descriptor :: u8 where "C2_delivery_system_descriptor = 0x0D"

text \<open>
  The descriptor parsers of \<^verbatim>\<open>descriptors.c\<close> that the \<^verbatim>\<open>switch\<close> calls. They are
  not part of the sources at hand: what a parser does to the entity \<^verbatim>\<open>data\<close> points to
  (a service or a transponder), given the buffer from the descriptor's first byte on, is
  the parameter \<open>ext\<close> of the functions below.
\<close>

datatype descriptor_parser =
    parse_ca_descriptor
  | parse_iso639_language_descriptor
  | parse_network_name_descriptor
  | parse_satellite_delivery_system_descriptor
  | parse_cable_delivery_system_descriptor
  | parse_service_descriptor
  | parse_ca_identifier_descriptor
  | parse_subtitling_descriptor
  | parse_terrestrial_delivery_system_descriptor
  | parse_C2_delivery_system_descriptor
  | parse_T2_delivery_system_descriptor
  | parse_SH_delivery_system_descriptor
  | parse_network_change_notify_descriptor
  | parse_frequency_list_descriptor
  | parse_S2_satellite_delivery_system_descriptor
  | parse_logical_channel_descriptor

text \<open>
  The \<^verbatim>\<open>switch(descriptor_tag)\<close> of \<^verbatim>\<open>parse_descriptors\<close>: which parser, if any, is
  called for a tag in table \<open>t\<close>. \<open>caps_2g\<close> is \<^verbatim>\<open>fe_info.caps & FE_CAN_2G_MODULATION\<close>.
  The cases \<^verbatim>\<open>content_descriptor\<close> to \<^verbatim>\<open>local_time_offset_descriptor\<close> have no
  \<^verbatim>\<open>break\<close> and fall through to \<^verbatim>\<open>parse_subtitling_descriptor\<close>.
\<close>

definition is_nit :: "int \<Rightarrow> bool" where
  "is_nit t \<longleftrightarrow> t = TABLE_NIT_ACT \<or> t = TABLE_NIT_OTH"

definition is_sdt :: "int \<Rightarrow> bool" where
  "is_sdt t \<longleftrightarrow> t = TABLE_SDT_ACT \<or> t = TABLE_SDT_OTH"

definition extension_switch :: "int \<Rightarrow> scantype \<Rightarrow> u8 \<Rightarrow> descriptor_parser option" where
  "extension_switch t scantype tag_ext =
     (if tag_ext = C2_delivery_system_descriptor then
        (if scantype = SCAN_CABLE \<and> is_nit t then Some parse_C2_delivery_system_descriptor
         else None)
      else if tag_ext = T2_delivery_system_descriptor then
        (if scantype = SCAN_TERRESTRIAL \<and> is_nit t then Some parse_T2_delivery_system_descriptor
         else None)
      else if tag_ext = SH_delivery_system_descriptor then
        (if (scantype = SCAN_SATELLITE \<or> scantype = SCAN_TERRESTRIAL) \<and> is_nit t
         then Some parse_SH_delivery_system_descriptor else None)
      else if tag_ext = network_change_notify_descriptor
        then Some parse_network_change_notify_descriptor
      else None)"

definition descriptor_switch ::
  "int \<Rightarrow> scantype \<Rightarrow> bool \<Rightarrow> u8 \<Rightarrow> descriptor_parser option" where
  "descriptor_switch t scantype caps_2g tag =
     (if tag = ca_descriptor then
        (if t = TABLE_PMT then Some parse_ca_descriptor else None)
      else if tag = iso_639_language_descriptor then
        (if t = TABLE_PMT then Some parse_iso639_language_descriptor else None)
      else if tag = network_name_descriptor then
        (if t = TABLE_NIT_ACT then Some parse_network_name_descriptor else None)
      else if tag = satellite_delivery_system_descriptor then
        (if scantype = SCAN_SATELLITE \<and> is_nit t
         then Some parse_satellite_delivery_system_descriptor else None)
      else if tag = cable_delivery_system_descriptor then
        (if scantype = SCAN_CABLE \<and> is_nit t
         then Some parse_cable_delivery_system_descriptor else None)
      else if tag = service_descriptor then
        (if is_sdt t then Some parse_service_descriptor else None)
      else if tag = ca_identifier_descriptor then
        (if is_sdt t then Some parse_ca_identifier_descriptor else None)
      else if tag = content_descriptor \<or> tag = parental_rating_descriptor \<or>
              tag = teletext_descriptor \<or> tag = telephone_descriptor \<or>
              tag = local_time_offset_descriptor \<or> tag = subtitling_descriptor
        then Some parse_subtitling_descriptor
      else if tag = terrestrial_delivery_system_descriptor then
        (if scantype = SCAN_TERRESTRIAL \<and> is_nit t
         then Some parse_terrestrial_delivery_system_descriptor else None)
      else if tag = frequency_list_descriptor then
        (if scantype = SCAN_TERRESTRIAL \<and> is_nit t
         then Some parse_frequency_list_descriptor else None)
      else if tag = s2_satellite_delivery_system_descriptor then
        (if scantype = SCAN_SATELLITE \<and> is_nit t \<and> caps_2g
         then Some parse_S2_satellite_delivery_system_descriptor else None)
      else if tag = logical_channel_descriptor then
        (if is_nit t then Some parse_logical_channel_descriptor else None)
      else None)"

text \<open>
  One pass through the \<^verbatim>\<open>switch\<close>. The extension descriptor reads \<^verbatim>\<open>buf[2]\<close>;
  a read beyond the end of the buffer is undefined behaviour, \<open>None\<close>.
\<close>

definition dispatch ::
  "(descriptor_parser \<Rightarrow> u8 list \<Rightarrow> 'd \<Rightarrow> 'd) \<Rightarrow> descriptor_parser option \<Rightarrow>
   u8 list \<Rightarrow> 'd \<Rightarrow> 'd" where
  "dispatch ext call buf data = (case call of None \<Rightarrow> data | Some p \<Rightarrow> ext p buf data)"

definition descriptor_case ::
  "(descriptor_parser \<Rightarrow> u8 list \<Rightarrow> 'd \<Rightarrow> 'd) \<Rightarrow> int \<Rightarrow> scantype \<Rightarrow> bool \<Rightarrow>
   u8 \<Rightarrow> u8 list \<Rightarrow> 'd \<Rightarrow> 'd option" where
  "descriptor_case ext t scantype caps_2g descriptor_tag buf data =
     (if descriptor_tag = extension_descriptor then
        (case drop 2 buf of
           [] \<Rightarrow> None
         | tag_ext # _ \<Rightarrow> Some (dispatch ext (extension_switch t scantype tag_ext) buf data))
      else Some (dispatch ext (descriptor_switch t scantype caps_2g descriptor_tag) buf data))"

text \<open>
  \<^verbatim>\<open>parse_descriptors\<close>. \<open>buf\<close> is the buffer from the current read position to its
  end; \<^verbatim>\<open>descriptor_len\<close> is an \<^verbatim>\<open>unsigned char\<close>, so \<^verbatim>\<open>buf[1] + 2\<close> is taken
  modulo 256. The result is the entity after the loop, or \<open>None\<close> when the loop reads
  beyond the end of the buffer.
\<close>

function parse_descriptors ::
  "(descriptor_parser \<Rightarrow> u8 list \<Rightarrow> 'd \<Rightarrow> 'd) \<Rightarrow> int \<Rightarrow> u8 list \<Rightarrow> int \<Rightarrow> 'd \<Rightarrow>
   scantype \<Rightarrow> bool \<Rightarrow> 'd option" where
  "parse_descriptors ext t buf descriptors_loop_len data scantype caps_2g =
     (if 0 < descriptors_loop_len then
        (case buf of
           descriptor_tag # b1 # rest \<Rightarrow>
             (let descriptor_len = b1 + 2 in
              if descriptor_len = 0 then Some data
              else
                (case descriptor_case ext t scantype caps_2g descriptor_tag buf data of
                   None \<Rightarrow> None
                 | Some data' \<Rightarrow>
                     parse_descriptors ext t (drop (unat descriptor_len) buf)
                       (descriptors_loop_len - uint descriptor_len) data' scantype caps_2g))
         | _ \<Rightarrow> None)
      else Some data)"
  by pat_completeness auto
termination
proof (relation "measure (\<lambda>(ext, t, buf, len, data, scantype, caps_2g). nat len)")
  show "wf (measure (\<lambda>(ext, t, buf, len, data, scantype, caps_2g). nat len))" by simp
next
  fix ext :: "descriptor_parser \<Rightarrow> u8 list \<Rightarrow> 'd \<Rightarrow> 'd" and t buf and len :: int
    and data scantype caps_2g x21 x22 x21a x22a and x :: u8 and x2 :: 'd
  assume "0 < len" and "x = x21a + 2" and "x \<noteq> 0"
  then have "0 < uint x" by (simp add: word_neq_0_conv word_less_def)
  with \<open>0 < len\<close> show "((ext, t, drop (unat x) buf, len - uint x, x2, scantype, caps_2g),
      ext, t, buf, len, data, scantype, caps_2g)
     \<in> measure (\<lambda>(ext, t, buf, len, data, scantype, caps_2g). nat len)"
    by simp
qed

declare parse_descriptors.simps [simp del]

text \<open>
  \<^verbatim>\<open>find_descriptor\<close>; \<^verbatim>\<open>scan.c\<close> calls it with \<^verbatim>\<open>desc\<close> and \<^verbatim>\<open>desc_len\<close>
  \<^verbatim>\<open>NULL\<close> only, so the result is the return value.
\<close>

function find_descriptor :: "u8 \<Rightarrow> u8 list \<Rightarrow> int \<Rightarrow> bool option" where
  "find_descriptor tag buf descriptors_loop_len =
     (if 0 < descriptors_loop_len then
        (case buf of
           descriptor_tag # b1 # rest \<Rightarrow>
             (let descriptor_len = b1 + 2 in
              if descriptor_len = 0 then Some False
              else if tag = descriptor_tag then Some True
              else find_descriptor tag (drop (unat descriptor_len) buf)
                     (descriptors_loop_len - uint descriptor_len))
         | _ \<Rightarrow> None)
      else Some False)"
  by pat_completeness auto
termination
proof (relation "measure (\<lambda>(tag, buf, len). nat len)")
  show "wf (measure (\<lambda>(tag, buf, len). nat len))" by simp
next
  fix tag :: u8 and buf :: "u8 list" and len :: int and x21 x22 x21a x22a and x :: u8
  assume "0 < len" and "x = x21a + 2" and "x \<noteq> 0"
  then have "0 < uint x" by (simp add: word_neq_0_conv word_less_def)
  with \<open>0 < len\<close> show "((tag, drop (unat x) buf, len - uint x), tag, buf, len)
     \<in> measure (\<lambda>(tag, buf, len). nat len)"
    by simp
qed

declare find_descriptor.simps [simp del]

lemmas tag_defs = ca_descriptor_def iso_639_language_descriptor_def network_name_descriptor_def
  satellite_delivery_system_descriptor_def cable_delivery_system_descriptor_def
  service_descriptor_def ca_identifier_descriptor_def content_descriptor_def
  parental_rating_descriptor_def teletext_descriptor_def telephone_descriptor_def
  local_time_offset_descriptor_def subtitling_descriptor_def
  terrestrial_delivery_system_descriptor_def frequency_list_descriptor_def
  s2_satellite_delivery_system_descriptor_def extension_descriptor_def
  logical_channel_descriptor_def T2_delivery_system_descriptor_def
  SH_delivery_system_descriptor_def network_change_notify_descriptor_def
  C2_delivery_system_descriptor_def

lemmas table_defs = TABLE_PAT_def TABLE_PMT_def TABLE_NIT_ACT_def TABLE_NIT_OTH_def
  TABLE_SDT_ACT_def TABLE_SDT_OTH_def TABLE_VCT_TERR_def TABLE_VCT_CABLE_def

text \<open>A stand-in for the parsers that counts the calls made.\<close>

definition count_call :: "descriptor_parser \<Rightarrow> u8 list \<Rightarrow> nat \<Rightarrow> nat" where
  "count_call p buf n = Suc n"

text \<open>
  C7, as stated, fails: in a loop of two descriptors whose length fields are both 0, the
  first does not end the loop. \<^verbatim>\<open>parse_descriptors\<close> calls the parser for both (two
  calls counted), and \<^verbatim>\<open>find_descriptor\<close> finds the teletext descriptor that follows
  a descriptor of length 0.
\<close>

theorem descriptor_length_zero_counterexample:
  "parse_descriptors count_call TABLE_SDT_ACT [0x48, 0, 0x48, 0] 4 0 SCAN_TERRESTRIAL False
     = Some 2 \<and>
   find_descriptor teletext_descriptor [0x48, 0, 0x56, 0] 4 = Some True"
  by (simp add: parse_descriptors.simps find_descriptor.simps descriptor_case_def dispatch_def
      descriptor_switch_def is_sdt_def is_nit_def tag_defs table_defs count_call_def)

text \<open>
  C7, amended: a descriptor whose length field (byte 1) is 0 is taken as a descriptor of
  two bytes: \<^verbatim>\<open>parse_descriptors\<close> passes it through the \<^verbatim>\<open>switch\<close> and goes on with
  the descriptor two bytes further, \<^verbatim>\<open>find_descriptor\<close> compares its tag and goes on
  likewise. Both loops are abandoned at once, with nothing more processed, when the
  total length kept in the \<^verbatim>\<open>unsigned char\<close>, byte 1 plus 2, is 0, that is for the
  length field 254.
\<close>

theorem descriptor_length_zero:
  assumes "0 < len"
  shows "parse_descriptors ext t (tag # 0 # rest) len data scantype caps_2g =
           (case descriptor_case ext t scantype caps_2g tag (tag # 0 # rest) data of
              None \<Rightarrow> None
            | Some data' \<Rightarrow> parse_descriptors ext t rest (len - 2) data' scantype caps_2g) \<and>
         find_descriptor wanted (tag # 0 # rest) len =
           (if wanted = tag then Some True else find_descriptor wanted rest (len - 2)) \<and>
         parse_descriptors ext t (tag # 254 # rest) len data scantype caps_2g = Some data \<and>
         find_descriptor wanted (tag # 254 # rest) len = Some False"
proof -
  have a: "parse_descriptors ext t (tag # 0 # rest) len data scantype caps_2g =
           (case descriptor_case ext t scantype caps_2g tag (tag # 0 # rest) data of
              None \<Rightarrow> None
            | Some data' \<Rightarrow> parse_descriptors ext t rest (len - 2) data' scantype caps_2g)"
    using assms
    by (subst parse_descriptors.simps) (simp split: option.split)
  have b: "find_descriptor wanted (tag # 0 # rest) len =
           (if wanted = tag then Some True else find_descriptor wanted rest (len - 2))"
    using assms by (subst find_descriptor.simps) simp
  have c: "parse_descriptors ext t (tag # 254 # rest) len data scantype caps_2g = Some data"
    using assms by (subst parse_descriptors.simps) simp
  have d: "find_descriptor wanted (tag # 254 # rest) len = Some False"
    using assms by (subst find_descriptor.simps) simp
  from a b c d show ?thesis by blast
qed

theorem descriptor_length_zero_witness:
  "(0 :: int) < 4 \<and>
   parse_descriptors count_call TABLE_SDT_ACT [0x48, 0, 0x56, 0] 4 0 SCAN_TERRESTRIAL False =
     parse_descriptors count_call TABLE_SDT_ACT [0x56, 0] 2 1 SCAN_TERRESTRIAL False \<and>
   find_descriptor teletext_descriptor [0x48, 0, 0x56, 0] 4 =
     find_descriptor teletext_descriptor [0x56, 0] 2 \<and>
   parse_descriptors count_call TABLE_SDT_ACT [0x48, 254, 0x56, 0] 4 0 SCAN_TERRESTRIAL False =
     Some 0 \<and>
   find_descriptor teletext_descriptor [0x48, 254, 0x56, 0] 4 = Some False"
proof -
  have pos: "(0 :: int) < 4" by simp
  from descriptor_length_zero [OF pos, of count_call TABLE_SDT_ACT "0x48" "[0x56, 0]" 0
      SCAN_TERRESTRIAL False teletext_descriptor]
  show ?thesis
    by (simp add: descriptor_case_def dispatch_def descriptor_switch_def is_sdt_def is_nit_def
        tag_defs table_defs count_call_def)
qed

section \<open>Section filters and their scheduler\<close>

text \<open>
  Modelled from the spec: \<^verbatim>\<open>scan.h\<close> with \<^verbatim>\<open>SECTION_BUF_SIZE\<close> and the
  \<^verbatim>\<open>SECTION_FLAG_\<close> bits is not part of the sources at hand. A section has at most 4096
  bytes (section 4.2 of the specification); the two flags are distinct bits of
  \<^verbatim>\<open>s->flags\<close>.
\<close>

definition SECTION_BUF_SIZE :: nat where "SECTION_BUF_SIZE = 4096"

definition SECTION_FLAG_INITIAL :: u32 where "SECTION_FLAG_INITIAL = 1"
definition SECTION_FLAG_FREE :: u32 where "SECTION_FLAG_FREE = 2"

definition MAX_RUNNING :: int where "MAX_RUNNING = 27"

text \<open>
  \<^verbatim>\<open>struct section_buf\<close>. \<open>section_done\<close> is the bitmap of 256 bits in 32 bytes,
  \<open>buf\<close> the array a section is read into, \<open>garbage\<close> the list of payloads that
  failed the CRC (\<open>None\<close> is \<^verbatim>\<open>NULL\<close>). The \<^verbatim>\<open>next_seg\<close> chain of a segmented
  filter is kept beside the record, as the list of the section_bufs that follow it.
\<close>

record section_buf =
  fd :: int
  pid :: int
  table_id :: int
  table_id_ext :: int
  flags :: u32
  run_once :: int
  segmented :: int
  timeout :: int
  start_time :: int
  running_time :: int
  section_version_number :: int
  sectionfilter_done :: int
  section_done :: "u8 list"
  buf :: "u8 list"
  garbage :: "u8 list list option"

definition calloc_section_buf :: section_buf where
  "calloc_section_buf =
     \<lparr>fd = 0, pid = 0, table_id = 0, table_id_ext = 0, flags = 0, run_once = 0, segmented = 0,
      timeout = 0, start_time = 0, running_time = 0, section_version_number = 0,
      sectionfilter_done = 0, section_done = replicate 32 0,
      buf = replicate SECTION_BUF_SIZE 0, garbage = None\<rparr>"

text \<open>
  The global settings read by the functions below: \<^verbatim>\<open>flags.scantype\<close>,
  \<^verbatim>\<open>flags.filter_timeout\<close> and \<^verbatim>\<open>fe_info.caps & FE_CAN_2G_MODULATION\<close>.
\<close>

record t2scan_flags =
  flags_scantype :: scantype
  flags_filter_timeout :: int
  caps_2g_modulation :: bool

text \<open>
  \<^verbatim>\<open>setup_filter\<close>. \<^verbatim>\<open>repetition_rate\<close> (the per-table constant of the timeout
  policy) is not part of the sources at hand and is a parameter.
\<close>

definition setup_filter ::
  "t2scan_flags \<Rightarrow> (scantype \<Rightarrow> int \<Rightarrow> int) \<Rightarrow> int \<Rightarrow> int \<Rightarrow> int \<Rightarrow> int \<Rightarrow> int \<Rightarrow> u32 \<Rightarrow>
   section_buf" where
  "setup_filter fl repetition_rate pid' table_id' table_id_ext' run_once' segmented' filter_flags =
     (let s = calloc_section_buf
        \<lparr>fd := - 1, pid := pid', table_id := table_id', flags := filter_flags,
         run_once := run_once', segmented := segmented', timeout := 1\<rparr>;
          s = (if 0 < flags_filter_timeout fl
               then s\<lparr>timeout := timeout s + 5 * repetition_rate (flags_scantype fl) table_id'\<rparr>
               else s\<lparr>timeout := timeout s + repetition_rate (flags_scantype fl) table_id'\<rparr>)
      in s\<lparr>table_id_ext := table_id_ext', section_version_number := - 1, garbage := None\<rparr>)"

text \<open>
  The demux device as \<^verbatim>\<open>start_filter\<close> sees it: what \<^verbatim>\<open>open\<close> returns, whether
  \<^verbatim>\<open>ioctl(DMX_SET_FILTER)\<close> succeeds, and what \<^verbatim>\<open>time\<close> returns. The scheduler state
  carries the outcomes of the calls still to come; \<^verbatim>\<open>open\<close> fails when none is left.
  \<open>bufs\<close> is the store of the section_bufs handed to the scheduler, a filter's address
  being its index; \<open>open_handles\<close> counts the demux handles opened and not yet closed.
  The arrays \<^verbatim>\<open>poll_fds\<close> and \<^verbatim>\<open>poll_section_bufs\<close> are rebuilt from
  \<^verbatim>\<open>running_filters\<close> by every \<^verbatim>\<open>update_poll_fds\<close> and are not kept.
\<close>

record dmx_event =
  open_result :: int
  set_filter_ok :: bool
  time_now :: int

record sched =
  bufs :: "section_buf list"
  running_filters :: "nat list"
  waiting_filters :: "nat list"
  n_running :: int
  open_handles :: int
  dmx_script :: "dmx_event list"

text \<open>
  \<^verbatim>\<open>update_poll_fds\<close>: the three \<^verbatim>\<open>fatal\<close> exits end the program, \<open>None\<close>.
\<close>

fun poll_fds_loop :: "section_buf list \<Rightarrow> int \<Rightarrow> int option" where
  "poll_fds_loop [] i = Some i"
| "poll_fds_loop (s # ss) i =
     (if MAX_RUNNING \<le> i then None
      else if fd s = - 1 then None
      else poll_fds_loop ss (i + 1))"

definition update_poll_fds :: "sched \<Rightarrow> sched option" where
  "update_poll_fds st =
     (case poll_fds_loop (map (\<lambda>a. bufs st ! a) (running_filters st)) 0 of
        None \<Rightarrow> None
      | Some i \<Rightarrow> if i \<noteq> n_running st then None else Some st)"

text \<open>
  \<^verbatim>\<open>start_filter\<close> (return value and new state), \<^verbatim>\<open>add_filter\<close> and
  \<^verbatim>\<open>stop_filter\<close>, outside emulation (\<^verbatim>\<open>flags.emulate\<close> is 0).
\<close>

definition on_buf :: "nat \<Rightarrow> (section_buf \<Rightarrow> section_buf) \<Rightarrow> sched \<Rightarrow> sched" where
  "on_buf a f st = st\<lparr>bufs := (bufs st)[a := f (bufs st ! a)]\<rparr>"

definition next_event :: "sched \<Rightarrow> dmx_event" where
  "next_event st =
     (case dmx_script st of
        [] \<Rightarrow> \<lparr>open_result = - 1, set_filter_ok = False, time_now = 0\<rparr>
      | e # _ \<Rightarrow> e)"

definition start_filter :: "nat \<Rightarrow> sched \<Rightarrow> (int \<times> sched) option" where
  "start_filter s st =
     (if MAX_RUNNING \<le> n_running st then Some (- 1, st)
      else
        let e = next_event st;
            st1 = on_buf s (\<lambda>b. b\<lparr>fd := open_result e\<rparr>) (st\<lparr>dmx_script := tl (dmx_script st)\<rparr>)
        in if open_result e < 0 then Some (- 1, st1)
           else
             let st2 = st1\<lparr>open_handles := open_handles st1 + 1\<rparr>
             in if \<not> set_filter_ok e
                then Some (- 1, st2\<lparr>open_handles := open_handles st2 - 1\<rparr>)
                else
                  let st3 = on_buf s (\<lambda>b. b\<lparr>sectionfilter_done := 0, start_time := time_now e\<rparr>) st2;
                      st4 = st3\<lparr>running_filters := running_filters st3 @ [s],
                                n_running := n_running st3 + 1\<rparr>
                  in map_option (\<lambda>st'. (0, st')) (update_poll_fds st4))"

definition add_filter :: "nat \<Rightarrow> sched \<Rightarrow> sched option" where
  "add_filter s st =
     (case start_filter s st of
        None \<Rightarrow> None
      | Some (r, st') \<Rightarrow>
          if r \<noteq> 0 then Some (st'\<lparr>waiting_filters := waiting_filters st' @ [s]\<rparr>)
          else Some st')"

definition stop_filter :: "int \<Rightarrow> nat \<Rightarrow> sched \<Rightarrow> sched option" where
  "stop_filter now s st =
     (let st1 = st\<lparr>open_handles := open_handles st - 1\<rparr>;
          st2 = on_buf s (\<lambda>b. b\<lparr>fd := - 1\<rparr>) st1;
          st3 = st2\<lparr>running_filters := remove1 s (running_filters st2)\<rparr>;
          st4 = on_buf s (\<lambda>b. b\<lparr>running_time := running_time b + (now - start_time b)\<rparr>) st3;
          st5 = st4\<lparr>n_running := n_running st4 - 1\<rparr>
      in update_poll_fds st5)"

text \<open>
  The scheduler's invariant: \<^verbatim>\<open>n_running\<close> is the length of the running list, every
  running filter holds an open handle and no other handle is open, and no more than
  \<^verbatim>\<open>MAX_RUNNING\<close> run.
\<close>

definition sched_inv :: "sched \<Rightarrow> bool" where
  "sched_inv st \<longleftrightarrow>
     n_running st = int (length (running_filters st)) \<and>
     open_handles st = n_running st \<and>
     n_running st \<le> MAX_RUNNING \<and>
     distinct (running_filters st) \<and>
     (\<forall>a \<in> set (running_filters st). a < length (bufs st) \<and> fd (bufs st ! a) \<noteq> - 1)"

lemma poll_fds_loop_ok:
  "\<forall>s \<in> set ss. fd s \<noteq> - 1 \<Longrightarrow> i + int (length ss) \<le> MAX_RUNNING \<Longrightarrow>
   poll_fds_loop ss i = Some (i + int (length ss))"
  by (induction ss arbitrary: i) auto

lemma update_poll_fds_inv: "sched_inv st \<Longrightarrow> update_poll_fds st = Some st"
  by (simp add: update_poll_fds_def sched_inv_def poll_fds_loop_ok)

lemma on_buf_sel [simp]:
  "running_filters (on_buf a f st) = running_filters st"
  "waiting_filters (on_buf a f st) = waiting_filters st"
  "n_running (on_buf a f st) = n_running st"
  "open_handles (on_buf a f st) = open_handles st"
  "dmx_script (on_buf a f st) = dmx_script st"
  "length (bufs (on_buf a f st)) = length (bufs st)"
  by (simp_all add: on_buf_def)

lemma bufs_on_buf:
  "bufs (on_buf a f st) ! b = (if b = a \<and> a < length (bufs st) then f (bufs st ! a) else bufs st ! b)"
  by (cases "a < length (bufs st)") (auto simp: on_buf_def nth_list_update list_update_beyond)

lemma start_filter_full:
  "MAX_RUNNING \<le> n_running st \<Longrightarrow> start_filter s st = Some (- 1, st)"
  by (simp add: start_filter_def)

lemma start_filter_inv:
  assumes "sched_inv st" and "s < length (bufs st)" and "s \<notin> set (running_filters st)"
  shows "\<exists>r st'. start_filter s st = Some (r, st') \<and> sched_inv st' \<and>
           length (bufs st') = length (bufs st) \<and>
           waiting_filters st' = waiting_filters st \<and>
           (r = 0 \<longrightarrow> running_filters st' = running_filters st @ [s]) \<and>
           (r \<noteq> 0 \<longrightarrow> running_filters st' = running_filters st)"
proof (cases "MAX_RUNNING \<le> n_running st")
  case True
  with assms show ?thesis by (simp add: start_filter_def)
next
  case False
  define e where "e = next_event st"
  define st1 where "st1 = on_buf s (\<lambda>b. b\<lparr>fd := open_result e\<rparr>) (st\<lparr>dmx_script := tl (dmx_script st)\<rparr>)"
  have inv1: "sched_inv st1"
    using assms by (auto simp: sched_inv_def st1_def bufs_on_buf)
  show ?thesis
  proof (cases "open_result e < 0")
    case True
    with False inv1 show ?thesis
      by (simp add: start_filter_def Let_def e_def [symmetric] st1_def [symmetric])
        (simp add: st1_def)
  next
    case opened: False
    show ?thesis
    proof (cases "set_filter_ok e")
      case False
      have "st1\<lparr>open_handles := open_handles st1 + 1 - 1\<rparr> = st1" by simp
      with \<open>\<not> MAX_RUNNING \<le> n_running st\<close> opened False inv1 show ?thesis
        by (simp add: start_filter_def Let_def e_def [symmetric] st1_def [symmetric])
          (simp add: st1_def)
    next
      case True
      define st4 where "st4 =
        (on_buf s (\<lambda>b. b\<lparr>sectionfilter_done := 0, start_time := time_now e\<rparr>)
           (st1\<lparr>open_handles := open_handles st1 + 1\<rparr>))
          \<lparr>running_filters := running_filters st1 @ [s], n_running := n_running st1 + 1\<rparr>"
      have inv4: "sched_inv st4"
        using assms \<open>\<not> MAX_RUNNING \<le> n_running st\<close> opened
        by (auto simp: sched_inv_def st4_def st1_def bufs_on_buf)
      have run: "start_filter s st = map_option (\<lambda>st'. (0, st')) (update_poll_fds st4)"
        using \<open>\<not> MAX_RUNNING \<le> n_running st\<close> opened True
        by (simp add: start_filter_def Let_def e_def [symmetric] st1_def [symmetric] st4_def)
      show ?thesis
        unfolding run update_poll_fds_inv [OF inv4]
        using inv4 by (simp add: st4_def st1_def)
    qed
  qed
qed

lemma stop_filter_inv:
  assumes "sched_inv st" and "s \<in> set (running_filters st)"
  shows "\<exists>st'. stop_filter now s st = Some st' \<and> sched_inv st' \<and>
           running_filters st' = remove1 s (running_filters st)"
proof -
  define st5 where "st5 =
    (on_buf s (\<lambda>b. b\<lparr>running_time := running_time b + (now - start_time b)\<rparr>)
      ((on_buf s (\<lambda>b. b\<lparr>fd := - 1\<rparr>) (st\<lparr>open_handles := open_handles st - 1\<rparr>))
         \<lparr>running_filters := remove1 s (running_filters st)\<rparr>))
     \<lparr>n_running := n_running st - 1\<rparr>"
  have len: "int (length (remove1 s (running_filters st))) = int (length (running_filters st)) - 1"
  proof -
    have "0 < length (running_filters st)"
      using assms(2) by (rule length_pos_if_in_set)
    then have "int (length (running_filters st) - 1) = int (length (running_filters st)) - 1"
      by (cases "length (running_filters st)") simp_all
    with assms(2) show ?thesis by (simp add: length_remove1)
  qed
  have inv5: "sched_inv st5"
    using assms len
    by (auto simp: sched_inv_def st5_def bufs_on_buf)
  have run: "stop_filter now s st = update_poll_fds st5"
    by (simp add: stop_filter_def Let_def st5_def)
  show ?thesis
    unfolding run update_poll_fds_inv [OF inv5] by (simp add: inv5) (simp add: st5_def)
qed

text \<open>The scheduler after \<^verbatim>\<open>NewList\<close> in \<^verbatim>\<open>main\<close>: nothing runs, nothing waits.\<close>

definition sched_init :: "section_buf list \<Rightarrow> dmx_event list \<Rightarrow> sched" where
  "sched_init bs script =
     \<lparr>bufs = bs, running_filters = [], waiting_filters = [], n_running = 0, open_handles = 0,
      dmx_script = script\<rparr>"

lemma sched_init_inv: "sched_inv (sched_init bs script)"
  by (simp add: sched_inv_def sched_init_def MAX_RUNNING_def)

text \<open>
  C9: in every scheduler state that the operations reach (the invariant holds at the
  start and is kept by \<^verbatim>\<open>add_filter\<close> and \<^verbatim>\<open>stop_filter\<close>) at most 27 filters run
  and at most 27 demux handles are open. With 27 running, \<^verbatim>\<open>start_filter\<close> returns -1
  and leaves the state as it is, without opening a handle, and \<^verbatim>\<open>add_filter\<close> appends
  the filter to the waiting list.
\<close>

theorem at_most_27_running:
  assumes "sched_inv st" and "s < length (bufs st)" and "s \<notin> set (running_filters st)"
  shows "length (running_filters st) \<le> 27 \<and> open_handles st \<le> 27 \<and>
         (\<exists>st'. add_filter s st = Some st' \<and> sched_inv st') \<and>
         (n_running st = 27 \<longrightarrow>
            start_filter s st = Some (- 1, st) \<and>
            add_filter s st = Some (st\<lparr>waiting_filters := waiting_filters st @ [s]\<rparr>)) \<and>
         (\<forall>r \<in> set (running_filters st). \<exists>st'. stop_filter now r st = Some st' \<and> sched_inv st')"
proof -
  have bound: "length (running_filters st) \<le> 27 \<and> open_handles st \<le> 27"
    using assms(1) by (simp add: sched_inv_def MAX_RUNNING_def)
  obtain r st1 where st1: "start_filter s st = Some (r, st1)" "sched_inv st1"
    using start_filter_inv [OF assms] by blast
  have "sched_inv (st1\<lparr>waiting_filters := waiting_filters st1 @ [s]\<rparr>)"
    using st1(2) by (simp add: sched_inv_def)
  with st1 have add: "\<exists>st'. add_filter s st = Some st' \<and> sched_inv st'"
    by (simp add: add_filter_def)
  have full: "start_filter s st = Some (- 1, st) \<and>
      add_filter s st = Some (st\<lparr>waiting_filters := waiting_filters st @ [s]\<rparr>)"
    if "n_running st = 27"
    using that by (simp add: add_filter_def start_filter_full MAX_RUNNING_def)
  have stop: "\<exists>st'. stop_filter now r st = Some st' \<and> sched_inv st'"
    if "r \<in> set (running_filters st)" for r
    using stop_filter_inv [OF assms(1) that] by blast
  from bound add full stop show ?thesis by blast
qed

text \<open>A scheduler with 27 running filters and one more section_buf, at address 27.\<close>

definition st_full :: sched where
  "st_full =
     \<lparr>bufs = replicate 28 (calloc_section_buf\<lparr>fd := 5\<rparr>), running_filters = [0..<27],
      waiting_filters = [], n_running = 27, open_handles = 27,
      dmx_script = [\<lparr>open_result = 6, set_filter_ok = True, time_now = 100\<rparr>]\<rparr>"

theorem at_most_27_running_witness:
  "sched_inv st_full \<and> 27 < length (bufs st_full) \<and> 27 \<notin> set (running_filters st_full) \<and>
   n_running st_full = 27 \<and>
   start_filter 27 st_full = Some (- 1, st_full) \<and>
   add_filter 27 st_full = Some (st_full\<lparr>waiting_filters := [27]\<rparr>) \<and>
   open_handles (st_full\<lparr>waiting_filters := [27]\<rparr>) = 27"
proof -
  have a: "sched_inv st_full"
    by (auto simp: sched_inv_def st_full_def MAX_RUNNING_def)
  have b: "27 < length (bufs st_full)" and c: "27 \<notin> set (running_filters st_full)"
    and d: "n_running st_full = 27" and e: "waiting_filters st_full = []"
    and f: "open_handles st_full = 27"
    by (simp_all add: st_full_def)
  from at_most_27_running [OF a b c, of 0] a b c d e f show ?thesis
    by simp
qed

section \<open>SDT and PAT\<close>

text \<open>\<^verbatim>\<open>(hi << 8) | lo\<close>, as a 16-bit value.\<close>

definition w16 :: "u8 \<Rightarrow> u8 \<Rightarrow> u16" where
  "w16 hi lo = push_bit 8 (ucast hi) OR ucast lo"

text \<open>
  \<^verbatim>\<open>find_service\<close> gives the index of the first service of the transponder with the
  id (\<open>None\<close> is \<^verbatim>\<open>NULL\<close>), \<^verbatim>\<open>alloc_service\<close> appends a zeroed service with the id.
\<close>

definition calloc_service :: service where
  "calloc_service =
     \<lparr>service_id = 0, pmt_pid = 0, running = 0, scrambled = 0, service_name = None,
      provider_name = None, priv = None\<rparr>"

fun find_service_loop :: "service list \<Rightarrow> u16 \<Rightarrow> nat \<Rightarrow> nat option" where
  "find_service_loop [] sid i = None"
| "find_service_loop (s # ss) sid i =
     (if service_id s = sid then Some i else find_service_loop ss sid (Suc i))"

definition find_service :: "transponder \<Rightarrow> u16 \<Rightarrow> nat option" where
  "find_service t sid = find_service_loop (services t) sid 0"

definition alloc_service :: "transponder \<Rightarrow> u16 \<Rightarrow> nat \<times> transponder" where
  "alloc_service t sid =
     (length (services t), t\<lparr>services := services t @ [calloc_service\<lparr>service_id := sid\<rparr>]\<rparr>)"

definition find_or_alloc_service :: "transponder \<Rightarrow> u16 \<Rightarrow> nat \<times> transponder" where
  "find_or_alloc_service t sid =
     (case find_service t sid of Some i \<Rightarrow> (i, t) | None \<Rightarrow> alloc_service t sid)"

definition on_service :: "nat \<Rightarrow> (service \<Rightarrow> service) \<Rightarrow> transponder \<Rightarrow> transponder" where
  "on_service i f t = t\<lparr>services := (services t)[i := f (services t ! i)]\<rparr>"

text \<open>
  \<^verbatim>\<open>parse_sdt\<close>. \<open>bs\<close> is the buffer from the read position to its end (a read
  beyond it is undefined behaviour, \<open>None\<close>); \<^verbatim>\<open>section_length\<close> is a
  \<^verbatim>\<open>uint16_t\<close> and its subtraction wraps.
\<close>

function sdt_loop ::
  "(descriptor_parser \<Rightarrow> u8 list \<Rightarrow> service \<Rightarrow> service) \<Rightarrow> t2scan_flags \<Rightarrow> u8 list \<Rightarrow> u16 \<Rightarrow>
   transponder \<Rightarrow> transponder option" where
  "sdt_loop ext fl bs section_length t =
     (if 4 < section_length then
        (case bs of
           b0 # b1 # b2 # b3 # b4 # rest \<Rightarrow>
             (let sid = w16 b0 b1;
                  descriptors_loop_len = uint (w16 (b3 AND 0x0f) b4)
              in if uint section_length < descriptors_loop_len \<or> descriptors_loop_len = 0
                 then Some t
                 else
                   (let (i, t1) = find_or_alloc_service t sid;
                        t2 = on_service i
                               (\<lambda>s. s\<lparr>running := drop_bit 5 b3 AND 0x7,
                                       scrambled := drop_bit 4 b3 AND 1\<rparr>) t1
                    in case parse_descriptors ext TABLE_SDT_ACT rest descriptors_loop_len
                              (services t2 ! i) (flags_scantype fl) (caps_2g_modulation fl) of
                         None \<Rightarrow> None
                       | Some s' \<Rightarrow>
                           sdt_loop ext fl (drop (nat (descriptors_loop_len + 5)) bs)
                             (section_length - word_of_int (descriptors_loop_len + 5))
                             (on_service i (\<lambda>_. s') t2)))
         | _ \<Rightarrow> None)
      else Some t)"
  by pat_completeness auto
termination
  by (relation "measure (\<lambda>(ext, fl, bs, section_length, t). length bs)")
    (auto simp: nat_add_distrib)

declare sdt_loop.simps [simp del]


text \<open>
  What the table handlers work on: the transponder \<^verbatim>\<open>current_tp\<close> points to, and the
  scheduler, to which \<^verbatim>\<open>parse_pat\<close> adds the PMT filters.
\<close>

record db =
  tp :: transponder
  sch :: sched

text \<open>
  \<^verbatim>\<open>parse_pat\<close>: \<open>pat_service\<close> is the loop body for an entry with a service id other
  than 0. \<open>pflags\<close> is the \<^verbatim>\<open>flags\<close> argument (the filter's \<^verbatim>\<open>s->flags\<close>).
\<close>

definition pat_service ::
  "t2scan_flags \<Rightarrow> (scantype \<Rightarrow> int \<Rightarrow> int) \<Rightarrow> u32 \<Rightarrow> u16 \<Rightarrow> u16 \<Rightarrow> db \<Rightarrow> db option" where
  "pat_service fl repetition_rate pflags sid program_number d =
     (let (i, t1) = find_or_alloc_service (tp d) sid;
          t2 = on_service i (\<lambda>s. s\<lparr>pmt_pid := program_number\<rparr>) t1
      in if pflags AND SECTION_FLAG_INITIAL = 0 then
           (if priv (services t2 ! i) = None then
              (let a = length (bufs (sch d));
                   t3 = on_service i (\<lambda>s. s\<lparr>priv := Some a\<rparr>) t2;
                   f = setup_filter fl repetition_rate (uint (pmt_pid (services t3 ! i)))
                         TABLE_PMT (- 1) 1 0 SECTION_FLAG_FREE;
                   sc = (sch d)\<lparr>bufs := bufs (sch d) @ [f]\<rparr>
               in map_option (\<lambda>sc'. \<lparr>tp = t3, sch = sc'\<rparr>) (add_filter a sc))
            else Some (d\<lparr>tp := t2\<rparr>))
         else Some (d\<lparr>tp := t2\<rparr>))"

function pat_loop ::
  "t2scan_flags \<Rightarrow> (scantype \<Rightarrow> int \<Rightarrow> int) \<Rightarrow> u32 \<Rightarrow> u8 list \<Rightarrow> u16 \<Rightarrow> db \<Rightarrow> db option" where
  "pat_loop fl repetition_rate pflags bs section_length d =
     (if 0 < section_length then
        (case bs of
           b0 # b1 # b2 # b3 # rest \<Rightarrow>
             (let sid = w16 b0 b1;
                  program_number = w16 (b2 AND 0x1f) b3
              in if sid = 0
                 then pat_loop fl repetition_rate pflags rest (section_length - 4)
                        (d\<lparr>tp := (tp d)\<lparr>network_PID := program_number\<rparr>\<rparr>)
                 else
                   (case pat_service fl repetition_rate pflags sid program_number d of
                      None \<Rightarrow> None
                    | Some d' \<Rightarrow> pat_loop fl repetition_rate pflags rest (section_length - 4) d'))
         | _ \<Rightarrow> None)
      else Some d)"
  by pat_completeness auto
termination
  by (relation "measure (\<lambda>(fl, rr, pflags, bs, section_length, d). length bs)") auto

declare pat_loop.simps [simp del]

definition parse_pat ::
  "t2scan_flags \<Rightarrow> (scantype \<Rightarrow> int \<Rightarrow> int) \<Rightarrow> u8 list \<Rightarrow> u16 \<Rightarrow> u16 \<Rightarrow> u32 \<Rightarrow> db \<Rightarrow> db option"
  where
  "parse_pat fl repetition_rate bs section_length tsid pflags d =
     (let t = tp d;
          t' = (if transport_stream_id t \<noteq> tsid \<and> type t = SCAN_TERRESTRIAL
                then t\<lparr>transport_stream_id := tsid\<rparr> else t)
      in pat_loop fl repetition_rate pflags bs section_length (d\<lparr>tp := t'\<rparr>))"


text \<open>
  The second scenario of the specification: an SDT payload with service 7, named News,
  and a PAT payload with program (7, 0x200); four bytes of CRC follow each.
\<close>

definition fl0 :: t2scan_flags where
  "fl0 = \<lparr>flags_scantype = SCAN_TERRESTRIAL, flags_filter_timeout = 0, caps_2g_modulation = True\<rparr>"





lemma find_service_loop_Some:
  "find_service_loop ss sid i = Some k \<Longrightarrow>
   i \<le> k \<and> k - i < length ss \<and> service_id (ss ! (k - i)) = sid"
proof (induction ss arbitrary: i)
  case Nil
  then show ?case by simp
next
  case (Cons s ss)
  show ?case
  proof (cases "service_id s = sid")
    case True
    with Cons.prems show ?thesis by simp
  next
    case False
    with Cons.prems have "find_service_loop ss sid (Suc i) = Some k" by simp
    from Cons.IH [OF this] have "Suc i \<le> k" "k - Suc i < length ss"
      "service_id (ss ! (k - Suc i)) = sid" by simp_all
    moreover from \<open>Suc i \<le> k\<close> have "k - i = Suc (k - Suc i)" by simp
    ultimately show ?thesis by simp
  qed
qed

lemma find_service_Some:
  "find_service t sid = Some k \<Longrightarrow> k < length (services t) \<and> service_id (services t ! k) = sid"
  using find_service_loop_Some [of "services t" sid 0 k] by (simp add: find_service_def)


lemma find_service_loop_first:
  "sid \<notin> service_id ` set ss \<Longrightarrow> service_id s = sid \<Longrightarrow>
   find_service_loop (ss @ s # ss') sid i = Some (i + length ss)"
  by (induction ss arbitrary: i) auto





lemma pat_loop_done: "pat_loop fl rr pflags bs 0 d = Some d"
  by (simp add: pat_loop.simps)

lemma pat_loop_one:
  "w16 b0 b1 \<noteq> 0 \<Longrightarrow>
   pat_loop fl rr pflags (b0 # b1 # b2 # b3 # rest) 4 d =
     pat_service fl rr pflags (w16 b0 b1) (w16 (b2 AND 0x1f) b3) d"
  by (subst pat_loop.simps) (simp add: pat_loop_done split: option.split)

lemma pat_service_found:
  assumes "find_service (tp d) sid = Some i" and "pat_service fl rr pflags sid pn d = Some d'"
  shows "\<exists>pv. services (tp d') = (services (tp d))[i := (services (tp d) ! i)\<lparr>pmt_pid := pn, priv := pv\<rparr>]"
proof -
  have i: "i < length (services (tp d))"
    using find_service_Some [OF assms(1)] by simp
  show ?thesis
  proof (cases "pflags AND SECTION_FLAG_INITIAL = 0 \<and> priv (services (tp d) ! i) = None")
    case False
    with assms i have "d' = d\<lparr>tp := on_service i (\<lambda>s. s\<lparr>pmt_pid := pn\<rparr>) (tp d)\<rparr>"
      by (auto simp: pat_service_def find_or_alloc_service_def on_service_def Let_def
          split: if_splits)
    then have "services (tp d') =
        (services (tp d))[i := (services (tp d) ! i)\<lparr>pmt_pid := pn, priv := priv (services (tp d) ! i)\<rparr>]"
      by (simp add: on_service_def)
    then show ?thesis by blast
  next
    case True
    with assms i have "tp d' = on_service i (\<lambda>s. s\<lparr>priv := Some (length (bufs (sch d)))\<rparr>)
        (on_service i (\<lambda>s. s\<lparr>pmt_pid := pn\<rparr>) (tp d))"
      by (auto simp: pat_service_def find_or_alloc_service_def on_service_def Let_def
          split: if_splits)
    with i have "services (tp d') =
        (services (tp d))[i := (services (tp d) ! i)\<lparr>pmt_pid := pn, priv := Some (length (bufs (sch d)))\<rparr>]"
      by (simp add: on_service_def)
    then show ?thesis by blast
  qed
qed

lemma pat_service_initial:
  assumes "find_service (tp d) sid = Some i" and "pflags AND SECTION_FLAG_INITIAL \<noteq> 0"
  shows "pat_service fl rr pflags sid pn d =
           Some (d\<lparr>tp := on_service i (\<lambda>s. s\<lparr>pmt_pid := pn\<rparr>) (tp d)\<rparr>)"
  using assms by (simp add: pat_service_def find_or_alloc_service_def Let_def)

lemma sdt_loop_done: "\<not> 4 < section_length \<Longrightarrow> sdt_loop ext fl bs section_length t = Some t"
  by (simp add: sdt_loop.simps)

text \<open>A transponder without services, and the service that the SDT of the scenario leaves.\<close>

definition tp0 :: transponder where
  "tp0 = new_transponder 506000000 SYS_DVBT 0"



section \<open>PMT filters installed by the PAT\<close>

text \<open>
  The members of a section_buf that \<^verbatim>\<open>setup_filter\<close> sets and the scheduler never
  writes; the number of services of a transponder whose filter pointer is set; and
  what \<^verbatim>\<open>parse_pat\<close> asks of \<^verbatim>\<open>setup_filter\<close> for a PMT filter: table id PMT,
  run once, not segmented, released when it is removed (\<^verbatim>\<open>SECTION_FLAG_FREE\<close>).
\<close>

definition static_fields :: "section_buf \<Rightarrow> int \<times> int \<times> int \<times> u32 \<times> int \<times> int" where
  "static_fields b = (pid b, table_id b, table_id_ext b, flags b, run_once b, segmented b)"

definition n_with_filter :: "transponder \<Rightarrow> nat" where
  "n_with_filter t = length (filter (\<lambda>s. priv s \<noteq> None) (services t))"

definition is_pmt_filter :: "section_buf \<Rightarrow> bool" where
  "is_pmt_filter b \<longleftrightarrow>
     table_id b = TABLE_PMT \<and> run_once b = 1 \<and> flags b = SECTION_FLAG_FREE \<and> segmented b = 0"

text \<open>
  What one run of the PAT loop does to the filter pointers and to the store of
  section_bufs: services and section_bufs are only added; a filter pointer that is set
  stays as it is; as many section_bufs are allocated as services get their pointer set;
  every new section_buf is a PMT filter that a service points to; and in the initial mode
  the scheduler is not touched.
\<close>

definition pat_rel :: "u32 \<Rightarrow> db \<Rightarrow> db \<Rightarrow> bool" where
  "pat_rel pflags d d' \<longleftrightarrow>
     length (services (tp d)) \<le> length (services (tp d')) \<and>
     length (bufs (sch d)) \<le> length (bufs (sch d')) \<and>
     (\<forall>i < length (services (tp d)).
        priv (services (tp d) ! i) \<noteq> None \<longrightarrow>
        priv (services (tp d') ! i) = priv (services (tp d) ! i)) \<and>
     length (bufs (sch d')) + n_with_filter (tp d) =
       length (bufs (sch d)) + n_with_filter (tp d') \<and>
     (\<forall>a < length (bufs (sch d)).
        static_fields (bufs (sch d') ! a) = static_fields (bufs (sch d) ! a)) \<and>
     (\<forall>a. length (bufs (sch d)) \<le> a \<and> a < length (bufs (sch d')) \<longrightarrow>
        is_pmt_filter (bufs (sch d') ! a) \<and>
        (\<exists>i < length (services (tp d')). priv (services (tp d') ! i) = Some a)) \<and>
     (pflags AND SECTION_FLAG_INITIAL \<noteq> 0 \<longrightarrow> sch d' = sch d)"

lemma pat_rel_refl: "pat_rel pflags d d"
  by (auto simp: pat_rel_def)

lemma pat_rel_trans:
  assumes "pat_rel pflags d1 d2" and "pat_rel pflags d2 d3"
  shows "pat_rel pflags d1 d3"
proof -
  have new: "is_pmt_filter (bufs (sch d3) ! a) \<and>
        (\<exists>i < length (services (tp d3)). priv (services (tp d3) ! i) = Some a)"
    if a: "length (bufs (sch d1)) \<le> a" "a < length (bufs (sch d3))" for a
  proof (cases "a < length (bufs (sch d2))")
    case True
    with a assms(1) obtain i where i: "is_pmt_filter (bufs (sch d2) ! a)"
      "i < length (services (tp d2))" "priv (services (tp d2) ! i) = Some a"
      unfolding pat_rel_def by blast
    from True assms(2) have "static_fields (bufs (sch d3) ! a) = static_fields (bufs (sch d2) ! a)"
      unfolding pat_rel_def by blast
    with i(1) have "is_pmt_filter (bufs (sch d3) ! a)"
      by (simp add: is_pmt_filter_def static_fields_def)
    moreover from i assms(2) have "i < length (services (tp d3))"
      "priv (services (tp d3) ! i) = Some a"
      unfolding pat_rel_def by auto
    ultimately show ?thesis by blast
  next
    case False
    with a assms(2) show ?thesis unfolding pat_rel_def by auto
  qed
  have old: "priv (services (tp d3) ! i) = priv (services (tp d1) ! i)"
    if "i < length (services (tp d1))" "priv (services (tp d1) ! i) \<noteq> None" for i
  proof -
    from that assms(1) have "priv (services (tp d2) ! i) = priv (services (tp d1) ! i)"
      "i < length (services (tp d2))"
      unfolding pat_rel_def by auto
    with that assms(2) show ?thesis unfolding pat_rel_def by auto
  qed
  have stat: "static_fields (bufs (sch d3) ! a) = static_fields (bufs (sch d1) ! a)"
    if "a < length (bufs (sch d1))" for a
  proof -
    from that assms(1) have "static_fields (bufs (sch d2) ! a) = static_fields (bufs (sch d1) ! a)"
      "a < length (bufs (sch d2))"
      unfolding pat_rel_def by auto
    with assms(2) show ?thesis unfolding pat_rel_def by auto
  qed
  from assms have rest: "length (services (tp d1)) \<le> length (services (tp d3))"
    "length (bufs (sch d1)) \<le> length (bufs (sch d3))"
    "length (bufs (sch d3)) + n_with_filter (tp d1) = length (bufs (sch d1)) + n_with_filter (tp d3)"
    "pflags AND SECTION_FLAG_INITIAL \<noteq> 0 \<longrightarrow> sch d3 = sch d1"
    unfolding pat_rel_def by auto
  from new old stat rest show ?thesis
    unfolding pat_rel_def by blast
qed

lemma length_filter_update:
  "i < length xs \<Longrightarrow>
   length (filter P (xs[i := y])) + (if P (xs ! i) then 1 else 0) =
   length (filter P xs) + (if P y then 1 else 0)"
proof (induction xs arbitrary: i)
  case Nil
  then show ?case by simp
next
  case (Cons x xs)
  show ?case
  proof (cases i)
    case 0
    then show ?thesis by simp
  next
    case (Suc j)
    with Cons.prems have "j < length xs" by simp
    from Cons.IH [OF this] Suc show ?thesis by simp
  qed
qed

lemma n_with_filter_same_priv:
  "i < length (services t) \<Longrightarrow> priv (f (services t ! i)) = priv (services t ! i) \<Longrightarrow>
   n_with_filter (on_service i f t) = n_with_filter t"
  using length_filter_update [of i "services t" "\<lambda>s. priv s \<noteq> None" "f (services t ! i)"]
  by (simp add: n_with_filter_def on_service_def split: if_splits)

lemma n_with_filter_set_priv:
  "i < length (services t) \<Longrightarrow> priv (services t ! i) = None \<Longrightarrow> priv (f (services t ! i)) \<noteq> None \<Longrightarrow>
   n_with_filter (on_service i f t) = Suc (n_with_filter t)"
  using length_filter_update [of i "services t" "\<lambda>s. priv s \<noteq> None" "f (services t ! i)"]
  by (simp add: n_with_filter_def on_service_def split: if_splits)

lemma on_service_sel [simp]:
  "length (services (on_service i f t)) = length (services t)"
  by (simp add: on_service_def)

lemma services_on_service:
  "services (on_service i f t) ! j =
     (if j = i \<and> i < length (services t) then f (services t ! i) else services t ! j)"
  by (cases "i < length (services t)") (auto simp: on_service_def nth_list_update list_update_beyond)

lemma start_filter_static:
  assumes "start_filter s st = Some (r, st')"
  shows "length (bufs st') = length (bufs st) \<and>
         (\<forall>b. static_fields (bufs st' ! b) = static_fields (bufs st ! b))"
  using assms
  by (auto simp: start_filter_def Let_def update_poll_fds_def bufs_on_buf static_fields_def
      split: if_splits option.splits)

lemma add_filter_static:
  assumes "add_filter s st = Some st'"
  shows "length (bufs st') = length (bufs st) \<and>
         (\<forall>b. static_fields (bufs st' ! b) = static_fields (bufs st ! b))"
proof -
  from assms obtain r st1 where s1: "start_filter s st = Some (r, st1)"
    and st': "st' = (if r \<noteq> 0 then st1\<lparr>waiting_filters := waiting_filters st1 @ [s]\<rparr> else st1)"
    by (auto simp: add_filter_def split: option.splits if_splits)
  from start_filter_static [OF s1] st' show ?thesis by auto
qed

lemma find_or_alloc_service_props:
  assumes "find_or_alloc_service t sid = (i, t1)"
  shows "i < length (services t1)"
    and "length (services t) \<le> length (services t1)"
    and "\<forall>j < length (services t). services t1 ! j = services t ! j"
    and "n_with_filter t1 = n_with_filter t"
    and "length (services t) \<le> i \<longrightarrow> priv (services t1 ! i) = None"
    and "service_id (services t1 ! i) = sid"
proof -
  show "i < length (services t1)" "length (services t) \<le> length (services t1)"
    "\<forall>j < length (services t). services t1 ! j = services t ! j"
    "n_with_filter t1 = n_with_filter t"
    "length (services t) \<le> i \<longrightarrow> priv (services t1 ! i) = None"
    "service_id (services t1 ! i) = sid"
    using assms find_service_Some [of t sid]
    by (auto simp: find_or_alloc_service_def alloc_service_def n_with_filter_def nth_append
        calloc_service_def split: option.splits)
qed

lemma setup_filter_pmt:
  "is_pmt_filter (setup_filter fl rr p TABLE_PMT (- 1) 1 0 SECTION_FLAG_FREE)"
  by (simp add: is_pmt_filter_def setup_filter_def Let_def)

lemma pat_service_rel:
  assumes "pat_service fl rr pflags sid pn d = Some d'"
  shows "pat_rel pflags d d'"
proof -
  obtain i t1 where fa: "find_or_alloc_service (tp d) sid = (i, t1)"
    by (cases "find_or_alloc_service (tp d) sid")
  note p = find_or_alloc_service_props [OF fa]
  define t2 where "t2 = on_service i (\<lambda>s. s\<lparr>pmt_pid := pn\<rparr>) t1"
  have len2: "length (services t2) = length (services t1)"
    by (simp add: t2_def)
  have priv2: "priv (services t2 ! j) = priv (services t1 ! j)" for j
    by (simp add: t2_def services_on_service)
  have n2: "n_with_filter t2 = n_with_filter (tp d)"
    using n_with_filter_same_priv [of i t1 "\<lambda>s. s\<lparr>pmt_pid := pn\<rparr>"] p(1,4) by (simp add: t2_def)
  show ?thesis
  proof (cases "pflags AND SECTION_FLAG_INITIAL = 0 \<and> priv (services t2 ! i) = None")
    case False
    with assms fa have d': "d' = d\<lparr>tp := t2\<rparr>"
      by (auto simp: pat_service_def Let_def t2_def split: if_splits)
    show ?thesis
      unfolding pat_rel_def d' using p(2,3) len2 n2 by (auto simp: priv2)
  next
    case True
    define a where "a = length (bufs (sch d))"
    define t3 where "t3 = on_service i (\<lambda>s. s\<lparr>priv := Some a\<rparr>) t2"
    define f where "f = setup_filter fl rr (uint (pmt_pid (services t3 ! i))) TABLE_PMT (- 1) 1 0
        SECTION_FLAG_FREE"
    define sc where "sc = (sch d)\<lparr>bufs := bufs (sch d) @ [f]\<rparr>"
    from assms fa True obtain sc' where add: "add_filter a sc = Some sc'"
      and d': "d' = \<lparr>tp = t3, sch = sc'\<rparr>"
      by (auto simp: pat_service_def Let_def t2_def t3_def a_def f_def sc_def)
    note st = add_filter_static [OF add]
    have lenb: "length (bufs sc') = Suc (length (bufs (sch d)))"
      using st by (simp add: sc_def)
    have i2: "i < length (services t2)" using p(1) len2 by simp
    have n3: "n_with_filter t3 = Suc (n_with_filter (tp d))"
      using n_with_filter_set_priv [of i t2 "\<lambda>s. s\<lparr>priv := Some a\<rparr>"] i2 True n2
      by (simp add: t3_def)
    have old: "priv (services t3 ! j) = priv (services (tp d) ! j)"
      if "j < length (services (tp d))" "priv (services (tp d) ! j) \<noteq> None" for j
    proof -
      from that p(3) have "priv (services t2 ! j) = priv (services (tp d) ! j)"
        by (simp add: priv2)
      with that True have "j \<noteq> i" by auto
      then show ?thesis
        using that p(3) by (simp add: t3_def services_on_service priv2)
    qed
    have stat: "static_fields (bufs sc' ! b) = static_fields (bufs (sch d) ! b)"
      if "b < length (bufs (sch d))" for b
      using st that by (simp add: sc_def nth_append)
    have new: "is_pmt_filter (bufs sc' ! a)"
    proof -
      have "static_fields (bufs sc' ! a) = static_fields f"
        using st by (simp add: sc_def a_def)
      moreover have "is_pmt_filter f"
        unfolding f_def by (rule setup_filter_pmt)
      ultimately show ?thesis
        by (simp add: is_pmt_filter_def static_fields_def)
    qed
    have ptr: "priv (services t3 ! i) = Some a"
      using i2 by (simp add: t3_def services_on_service)
    have len3: "length (services t3) = length (services t1)"
      by (simp add: t3_def len2)
    show ?thesis
      unfolding pat_rel_def d'
      using p(1,2) len3 lenb n3 old stat new ptr True
      by (auto simp: a_def less_Suc_eq_le)
  qed
qed

lemma pat_loop_rel:
  "pat_loop fl rr pflags bs section_length d = Some d' \<Longrightarrow> pat_rel pflags d d'"
proof (induction fl rr pflags bs section_length d rule: pat_loop.induct)
  case (1 fl rr pflags bs section_length d)
  show ?case
  proof (cases "0 < section_length")
    case False
    with "1.prems" show ?thesis by (simp add: pat_loop.simps pat_rel_refl)
  next
    case True
    from True "1.prems" obtain b0 b1 b2 b3 rest where bs: "bs = b0 # b1 # b2 # b3 # rest"
      by (subst (asm) pat_loop.simps) (auto split: list.splits)
    define sid where "sid = w16 b0 b1"
    define pn where "pn = w16 (b2 AND 0x1f) b3"
    show ?thesis
    proof (cases "sid = 0")
      case True
      define d1 where "d1 = d\<lparr>tp := (tp d)\<lparr>network_PID := pn\<rparr>\<rparr>"
      from \<open>0 < section_length\<close> bs True "1.prems"
      have "pat_loop fl rr pflags rest (section_length - 4) d1 = Some d'"
        by (subst (asm) pat_loop.simps) (simp add: sid_def pn_def d1_def Let_def)
      from "1.IH"(1) [OF \<open>0 < section_length\<close> bs refl refl refl sid_def pn_def True
          this [unfolded d1_def]]
      have "pat_rel pflags d1 d'" by (simp add: d1_def)
      moreover have "pat_rel pflags d d1"
        by (auto simp: pat_rel_def d1_def n_with_filter_def)
      ultimately show ?thesis using pat_rel_trans by blast
    next
      case False
      from \<open>0 < section_length\<close> bs False "1.prems"
      obtain d1 where d1: "pat_service fl rr pflags sid pn d = Some d1"
        and rec: "pat_loop fl rr pflags rest (section_length - 4) d1 = Some d'"
        by (subst (asm) pat_loop.simps) (auto simp: sid_def pn_def Let_def split: option.splits)
      from "1.IH"(2) [OF \<open>0 < section_length\<close> bs refl refl refl sid_def pn_def False d1 rec]
      have "pat_rel pflags d1 d'" .
      with pat_service_rel [OF d1] show ?thesis using pat_rel_trans by blast
    qed
  qed
qed

text \<open>
  C10: whatever the PAT payload (repeated entries, a PAT parsed again), \<^verbatim>\<open>parse_pat\<close>
  leaves the filter pointer of a service that has one as it is, and allocates exactly as
  many section_bufs as there are services whose pointer it sets from \<^verbatim>\<open>NULL\<close>: a
  service never gets a second PMT filter. Each filter it allocates is a one-shot PMT
  filter with \<^verbatim>\<open>SECTION_FLAG_FREE\<close> that a service points to, and in the initial mode
  none is allocated.
\<close>

theorem one_pmt_filter_per_service:
  assumes "parse_pat fl rr bs section_length tsid pflags d = Some d'"
  shows "(\<forall>i < length (services (tp d)).
            priv (services (tp d) ! i) \<noteq> None \<longrightarrow>
            priv (services (tp d') ! i) = priv (services (tp d) ! i)) \<and>
         length (bufs (sch d')) + n_with_filter (tp d) =
           length (bufs (sch d)) + n_with_filter (tp d') \<and>
         (\<forall>a. length (bufs (sch d)) \<le> a \<and> a < length (bufs (sch d')) \<longrightarrow>
            is_pmt_filter (bufs (sch d') ! a) \<and>
            (\<exists>i < length (services (tp d')). priv (services (tp d') ! i) = Some a)) \<and>
         (pflags AND SECTION_FLAG_INITIAL \<noteq> 0 \<longrightarrow> sch d' = sch d)"
proof -
  define t' where "t' = (if transport_stream_id (tp d) \<noteq> tsid \<and> type (tp d) = SCAN_TERRESTRIAL
                then (tp d)\<lparr>transport_stream_id := tsid\<rparr> else tp d)"
  have sv: "services t' = services (tp d)"
    by (simp add: t'_def)
  from assms have "pat_loop fl rr pflags bs section_length (d\<lparr>tp := t'\<rparr>) = Some d'"
    by (simp add: parse_pat_def Let_def t'_def)
  then have "pat_rel pflags (d\<lparr>tp := t'\<rparr>) d'"
    by (rule pat_loop_rel)
  then show ?thesis
    unfolding pat_rel_def by (simp add: sv n_with_filter_def)
qed

text \<open>
  A PAT payload that lists program (1, 0x100) twice, parsed on a transponder without
  services and then parsed again on the result.
\<close>

definition pat_twice :: "u8 list" where
  "pat_twice = [0x00, 0x01, 0xE1, 0x00, 0x00, 0x01, 0xE1, 0x00, 0xDE, 0xAD, 0xBE, 0xEF]"

definition d0 :: db where
  "d0 = \<lparr>tp = tp0,
         sch = sched_init [] [\<lparr>open_result = 5, set_filter_ok = True, time_now = 100\<rparr>]\<rparr>"

definition d1 :: db where
  "d1 = \<lparr>tp = tp0\<lparr>transport_stream_id := 1000,
             services := [calloc_service\<lparr>service_id := 1, pmt_pid := 0x100, priv := Some 0\<rparr>]\<rparr>,
         sch = \<lparr>bufs = [(setup_filter fl0 (\<lambda>_ _. 1) 0x100 TABLE_PMT (- 1) 1 0 SECTION_FLAG_FREE)
                          \<lparr>fd := 5, sectionfilter_done := 0, start_time := 100\<rparr>],
                 running_filters = [0], waiting_filters = [], n_running = 1, open_handles = 1,
                 dmx_script = []\<rparr>\<rparr>"

lemmas pat_eval_defs = parse_pat_def pat_loop.simps pat_service_def w16_def
  find_or_alloc_service_def find_service_def alloc_service_def on_service_def calloc_service_def
  add_filter_def start_filter_def next_event_def update_poll_fds_def on_buf_def
  sched_init_def MAX_RUNNING_def SECTION_FLAG_INITIAL_def tp0_def new_transponder_def
  calloc_transponder_def delsys_type_def SYS_DVBT_def SYS_DVBT2_def Let_def

theorem one_pmt_filter_per_service_witness:
  "parse_pat fl0 (\<lambda>_ _. 1) pat_twice 8 1000 0 d0 = Some d1 \<and>
   parse_pat fl0 (\<lambda>_ _. 1) pat_twice 8 1000 0 d1 = Some d1 \<and>
   length (bufs (sch d0)) = 0 \<and> n_with_filter (tp d0) = 0 \<and>
   length (bufs (sch d1)) = 1 \<and> n_with_filter (tp d1) = 1 \<and>
   is_pmt_filter (bufs (sch d1) ! 0) \<and> priv (services (tp d1) ! 0) = Some 0"
proof -
  have a: "parse_pat fl0 (\<lambda>_ _. 1) pat_twice 8 1000 0 d0 = Some d1"
    by (simp add: pat_eval_defs pat_twice_def d0_def d1_def)
  have b: "parse_pat fl0 (\<lambda>_ _. 1) pat_twice 8 1000 0 d1 = Some d1"
    by (simp add: pat_eval_defs pat_twice_def d1_def)
  have c: "length (bufs (sch d0)) = 0" "n_with_filter (tp d0) = 0"
    "length (bufs (sch d1)) = 1" "priv (services (tp d1) ! 0) = Some 0"
    by (simp_all add: d0_def d1_def n_with_filter_def sched_init_def tp0_def)
  from one_pmt_filter_per_service [OF a] one_pmt_filter_per_service [OF b] a b c
  show ?thesis by simp
qed

section \<open>SDT before PAT\<close>








text \<open>
  The payload of an SDT section after the first three bytes (original_network_id and a
  reserved byte) is a sequence of entries: service_id (2 bytes), a byte of flags, the
  running status, the scrambling bit and the length of the descriptor loop (12 bits),
  and the descriptors (EN 300 468). An entry is given by its five header bytes and its
  descriptor bytes; \<open>sdt_entry_ok\<close> says that the descriptor loop has the length the
  header gives and is not empty. \<open>sdt_flags\<close> is what \<^verbatim>\<open>parse_sdt\<close> stores of the
  fourth header byte.
\<close>

type_synonym sdt_entry = "u8 \<times> u8 \<times> u8 \<times> u8 \<times> u8 \<times> u8 list"

fun sdt_entry_bytes :: "sdt_entry \<Rightarrow> u8 list" where
  "sdt_entry_bytes (b0, b1, b2, b3, b4, ds) = b0 # b1 # b2 # b3 # b4 # ds"


fun sdt_entry_len :: "sdt_entry \<Rightarrow> int" where
  "sdt_entry_len (b0, b1, b2, b3, b4, ds) = uint (w16 (b3 AND 0x0f) b4)"


definition sdt_bytes :: "sdt_entry list \<Rightarrow> u8 list" where
  "sdt_bytes es = concat (map sdt_entry_bytes es)"





lemma sdt_bytes_simps [simp]:
  "sdt_bytes [] = []"
  "sdt_bytes (e # es) = sdt_entry_bytes e @ sdt_bytes es"
  "sdt_bytes (es @ es') = sdt_bytes es @ sdt_bytes es'"
  by (simp_all add: sdt_bytes_def)








text \<open>
  The payload of a PAT section is a sequence of entries of four bytes: program number
  (the service id) and, in 13 bits, the PID of its PMT (ISO/IEC 13818-1).
\<close>

type_synonym pat_entry = "u8 \<times> u8 \<times> u8 \<times> u8"

fun pat_entry_bytes :: "pat_entry \<Rightarrow> u8 list" where
  "pat_entry_bytes (b0, b1, b2, b3) = [b0, b1, b2, b3]"


definition pat_bytes :: "pat_entry list \<Rightarrow> u8 list" where
  "pat_bytes ps = concat (map pat_entry_bytes ps)"

lemma pat_bytes_simps [simp]:
  "pat_bytes [] = []"
  "pat_bytes (e # es) = pat_entry_bytes e @ pat_bytes es"
  "pat_bytes (es @ es') = pat_bytes es @ pat_bytes es'"
  by (simp_all add: pat_bytes_def)



















section \<open>NIT\<close>

text \<open>
  \<^verbatim>\<open>parse_nit\<close>, on the transponder \<^verbatim>\<open>current_tp\<close> points to. \<open>nit_apply\<close> is the
  body of the \<^verbatim>\<open>if\<close> in the transport stream loop: it builds \<^verbatim>\<open>tn\<close>, runs the
  entry's descriptors on it and copies original_network_id and six tuning members to
  the current transponder. \<^verbatim>\<open>copy_fe_params\<close> copies the members between
  \<^verbatim>\<open>frequency\<close> and \<^verbatim>\<open>private_from_here\<close>; the layout of the structure is not part
  of the sources at hand, so the function is a parameter (destination first).
  \<open>nit_entry_used\<close> is the condition of the \<^verbatim>\<open>if\<close>.
\<close>

definition nit_apply ::
  "(descriptor_parser \<Rightarrow> u8 list \<Rightarrow> transponder \<Rightarrow> transponder) \<Rightarrow>
   (transponder \<Rightarrow> transponder \<Rightarrow> transponder) \<Rightarrow> t2scan_flags \<Rightarrow> int \<Rightarrow> u16 \<Rightarrow>
   u16 \<Rightarrow> u16 \<Rightarrow> u8 list \<Rightarrow> int \<Rightarrow> transponder \<Rightarrow> transponder option" where
  "nit_apply ext copy_fe_params fl tid nid tsid onid bs descriptors_loop_len cur =
     (let tn = calloc_transponder
                 \<lparr>type := type cur, network_PID := network_PID cur, network_id := nid,
                  original_network_id := onid, transport_stream_id := tsid,
                  network_name := None, services := [], cells := []\<rparr>;
          tn = (if original_network_id cur = onid \<and> transport_stream_id cur = tsid \<and>
                   tid = TABLE_NIT_ACT
                then copy_fe_params tn cur else tn)
      in case parse_descriptors ext tid bs descriptors_loop_len tn (flags_scantype fl)
                (caps_2g_modulation fl) of
           None \<Rightarrow> None
         | Some tn \<Rightarrow>
             (let tn = tn\<lparr>source := source tn OR push_bit 8 (word_of_int tid)\<rparr>
              in Some (cur\<lparr>original_network_id := onid, coderate := coderate tn,
                         coderate_LP := coderate_LP tn, guard := guard tn,
                         transmission := transmission tn, hierarchy := hierarchy tn,
                         modulation := modulation tn\<rparr>)))"

definition nit_entry_used :: "u16 \<Rightarrow> u16 \<Rightarrow> transponder \<Rightarrow> bool" where
  "nit_entry_used nid tsid cur \<longleftrightarrow>
     type cur \<noteq> SCAN_TERRESTRIAL \<or>
     (tsid = transport_stream_id cur \<and> nid = network_id cur)"

function nit_loop ::
  "(descriptor_parser \<Rightarrow> u8 list \<Rightarrow> transponder \<Rightarrow> transponder) \<Rightarrow>
   (transponder \<Rightarrow> transponder \<Rightarrow> transponder) \<Rightarrow> t2scan_flags \<Rightarrow> int \<Rightarrow> u16 \<Rightarrow>
   u8 list \<Rightarrow> u16 \<Rightarrow> transponder \<Rightarrow> transponder option" where
  "nit_loop ext copy_fe_params fl tid nid bs section_length cur =
     (if 6 < section_length then
        (case bs of
           b0 # b1 # b2 # b3 # b4 # b5 # rest \<Rightarrow>
             (let tsid = w16 b0 b1;
                  onid = w16 b2 b3;
                  descriptors_loop_len = uint (w16 b4 b5 AND 0x0FFF)
              in if uint section_length < descriptors_loop_len + 4 then Some cur
                 else
                   (case (if nit_entry_used nid tsid cur
                          then nit_apply ext copy_fe_params fl tid nid tsid onid rest
                                 descriptors_loop_len cur
                          else Some cur) of
                      None \<Rightarrow> None
                    | Some cur' \<Rightarrow>
                        nit_loop ext copy_fe_params fl tid nid
                          (drop (nat (descriptors_loop_len + 6)) bs)
                          (section_length - word_of_int (descriptors_loop_len + 6)) cur'))
         | _ \<Rightarrow> None)
      else Some cur)"
  by pat_completeness auto
termination
  by (relation "measure (\<lambda>(ext, cp, fl, tid, nid, bs, section_length, cur). length bs)")
    (auto simp: nat_add_distrib)

declare nit_loop.simps [simp del]

definition parse_nit ::
  "(descriptor_parser \<Rightarrow> u8 list \<Rightarrow> transponder \<Rightarrow> transponder) \<Rightarrow>
   (transponder \<Rightarrow> transponder \<Rightarrow> transponder) \<Rightarrow> t2scan_flags \<Rightarrow>
   u8 list \<Rightarrow> u16 \<Rightarrow> int \<Rightarrow> u16 \<Rightarrow> transponder \<Rightarrow> transponder option" where
  "parse_nit ext copy_fe_params fl bs section_length tid nid cur =
     (case bs of
        b0 # b1 # rest \<Rightarrow>
          (let descriptors_loop_len = uint (w16 (b0 AND 0x0f) b1);
               cur = (if tid = TABLE_NIT_ACT \<and> network_id cur \<noteq> nid
                      then cur\<lparr>network_id := nid\<rparr> else cur)
           in if uint section_length < descriptors_loop_len + 4 then Some cur
              else
                (case parse_descriptors ext tid rest descriptors_loop_len cur
                        (flags_scantype fl) (caps_2g_modulation fl) of
                   None \<Rightarrow> None
                 | Some cur \<Rightarrow>
                     nit_loop ext copy_fe_params fl tid nid
                       (drop (nat (descriptors_loop_len + 4)) bs)
                       (section_length - word_of_int (descriptors_loop_len + 4)) cur))
      | _ \<Rightarrow> None)"

text \<open>
  Modelled from the spec: \<^verbatim>\<open>struct transponder\<close> (\<^verbatim>\<open>scan.h\<close>) is not part of the
  sources at hand; \<^verbatim>\<open>copy_fe_params\<close> is taken to copy the tuning parameters
  (section 4.7 of the specification: tuning parameters copied). Used for concrete runs
  only, as is a descriptor parser that leaves the transponder alone.
\<close>

definition copy_tuning :: "transponder \<Rightarrow> transponder \<Rightarrow> transponder" where
  "copy_tuning dest src =
     dest\<lparr>frequency := frequency src, inversion := inversion src, bandwidth := bandwidth src,
          symbolrate := symbolrate src, coderate := coderate src,
          coderate_LP := coderate_LP src, modulation := modulation src,
          transmission := transmission src, guard := guard src, hierarchy := hierarchy src\<rparr>"

definition no_parser :: "descriptor_parser \<Rightarrow> u8 list \<Rightarrow> transponder \<Rightarrow> transponder" where
  "no_parser p bs t = t"

text \<open>
  A cable transponder tuned to transport stream 1000 of network 1, and a NIT payload
  (no network descriptors) whose only entry is for transport stream 2000 (original
  network 9), with one stuffing descriptor; four bytes of CRC follow.
\<close>

definition tp_cable :: transponder where
  "tp_cable = (new_transponder 346000000 SYS_DVBC_ANNEX_A 0)
     \<lparr>original_network_id := 1, network_id := 1, transport_stream_id := 1000,
      coderate := 9, modulation := 6\<rparr>"

definition nit_other_ts :: "u8 list" where
  "nit_other_ts = [0xF0, 0x00, 0xF0, 0x08,
                   0x07, 0xD0, 0x00, 0x09, 0xF0, 0x02, 0x42, 0x00,
                   0xDE, 0xAD, 0xBE, 0xEF]"


text \<open>
  \<open>tuning_of new cur\<close>: \<open>cur\<close> with original_network_id, code rates, guard,
  transmission, hierarchy and modulation taken from \<open>new\<close>.
\<close>

definition tuning_of :: "transponder \<Rightarrow> transponder \<Rightarrow> transponder" where
  "tuning_of new cur =
     cur\<lparr>original_network_id := original_network_id new, coderate := coderate new,
         coderate_LP := coderate_LP new, guard := guard new,
         transmission := transmission new, hierarchy := hierarchy new,
         modulation := modulation new\<rparr>"

lemma tuning_of_self [simp]: "tuning_of cur cur = cur"
  by (simp add: tuning_of_def)

lemma tuning_of_tuning_of: "tuning_of new (tuning_of mid cur) = tuning_of new cur"
  by (simp add: tuning_of_def)

lemma tuning_of_sel [simp]:
  "type (tuning_of new cur) = type cur"
  "transport_stream_id (tuning_of new cur) = transport_stream_id cur"
  "network_id (tuning_of new cur) = network_id cur"
  by (simp_all add: tuning_of_def)

lemma nit_apply_tuning:
  "nit_apply ext cp fl tid nid tsid onid bs dll cur = Some cur' \<Longrightarrow>
   cur' = tuning_of cur' cur \<and> original_network_id cur' = onid"
  by (auto simp: nit_apply_def tuning_of_def Let_def split: option.splits)

lemma nit_loop_step:
  assumes "6 < section_length"
      and "\<not> uint section_length < uint (w16 b4 b5 AND 0x0FFF) + 4"
  shows "nit_loop ext cp fl tid nid (b0 # b1 # b2 # b3 # b4 # b5 # rest) section_length cur =
           (case (if nit_entry_used nid (w16 b0 b1) cur
                  then nit_apply ext cp fl tid nid (w16 b0 b1) (w16 b2 b3) rest
                         (uint (w16 b4 b5 AND 0x0FFF)) cur
                  else Some cur) of
              None \<Rightarrow> None
            | Some cur' \<Rightarrow>
                nit_loop ext cp fl tid nid
                  (drop (nat (uint (w16 b4 b5 AND 0x0FFF) + 6)) (b0 # b1 # b2 # b3 # b4 # b5 # rest))
                  (section_length - word_of_int (uint (w16 b4 b5 AND 0x0FFF) + 6)) cur')"
  using assms by (subst nit_loop.simps) (simp add: Let_def)

lemma nit_loop_tuning:
  "nit_loop ext cp fl tid nid bs section_length cur = Some cur' \<Longrightarrow>
   cur' = tuning_of cur' cur \<and>
   (type cur = SCAN_TERRESTRIAL \<and> nid \<noteq> network_id cur \<longrightarrow> cur' = cur)"
proof (induction ext cp fl tid nid bs section_length cur rule: nit_loop.induct)
  case (1 ext cp fl tid nid bs section_length cur)
  show ?case
  proof (cases "6 < section_length")
    case False
    with "1.prems" show ?thesis by (simp add: nit_loop.simps)
  next
    case True
    from True "1.prems" obtain b0 b1 b2 b3 b4 b5 rest
      where bs: "bs = b0 # b1 # b2 # b3 # b4 # b5 # rest"
      by (subst (asm) nit_loop.simps) (auto split: list.splits)
    define dll where "dll = uint (w16 b4 b5 AND 0x0FFF)"
    show ?thesis
    proof (cases "uint section_length < dll + 4")
      case short: True
      with True bs "1.prems" show ?thesis
        by (subst (asm) nit_loop.simps) (simp add: Let_def dll_def)
    next
      case False
      define r where "r = (if nit_entry_used nid (w16 b0 b1) cur
                  then nit_apply ext cp fl tid nid (w16 b0 b1) (w16 b2 b3) rest dll cur
                  else Some cur)"
      have "nit_loop ext cp fl tid nid bs section_length cur =
          (case r of None \<Rightarrow> None
           | Some c \<Rightarrow> nit_loop ext cp fl tid nid (drop (nat (dll + 6)) bs)
                        (section_length - word_of_int (dll + 6)) c)"
        unfolding bs r_def dll_def by (rule nit_loop_step [OF True False [unfolded dll_def]])
      with "1.prems" obtain cur1 where r: "r = Some cur1"
        and rec: "nit_loop ext cp fl tid nid (drop (nat (dll + 6)) bs)
                    (section_length - word_of_int (dll + 6)) cur1 = Some cur'"
        by (cases r) simp_all
      have c1: "cur1 = tuning_of cur1 cur \<and>
                (type cur = SCAN_TERRESTRIAL \<and> nid \<noteq> network_id cur \<longrightarrow> cur1 = cur)"
        using r nit_apply_tuning [of ext cp fl tid nid "w16 b0 b1" "w16 b2 b3" rest dll cur cur1]
        by (auto simp: r_def nit_entry_used_def split: if_splits)
      from "1.IH" [OF True bs refl refl refl refl refl refl refl dll_def False r [unfolded r_def] rec]
      have c2: "cur' = tuning_of cur' cur1 \<and>
                (type cur1 = SCAN_TERRESTRIAL \<and> nid \<noteq> network_id cur1 \<longrightarrow> cur' = cur1)" .
      from c1 have same: "type cur1 = type cur" "network_id cur1 = network_id cur"
        by (metis tuning_of_sel(1), metis tuning_of_sel(3))
      from c1 c2 have "cur' = tuning_of cur' cur"
        by (metis tuning_of_tuning_of)
      with c1 c2 same show ?thesis by auto
    qed
  qed
qed

text \<open>
  The test on transport_stream_id and network_id is made only when the current
  transponder is terrestrial (\<^verbatim>\<open>current_tp->type != SCAN_TERRESTRIAL ||\<close>). A cable
  transponder as current transponder would take original_network_id, code rate and
  modulation from an entry for another transport stream. \<^verbatim>\<open>network_scan\<close> gives the
  current transponder the type \<^verbatim>\<open>flags.scantype\<close>, which \<^verbatim>\<open>main\<close> sets to terrestrial
  or ATSC (the scan mode for cable is commented out), and looks up the initial tables,
  the NIT among them, for every type but ATSC (last section): the transponder a NIT is
  parsed for is terrestrial.
\<close>

lemma parse_nit_cable_entry:
  "type tp_cable = SCAN_CABLE \<and> transport_stream_id tp_cable = 1000 \<and>
   w16 0x07 0xD0 = 2000 \<and>
   parse_nit no_parser copy_tuning fl0 nit_other_ts 12 TABLE_NIT_ACT 1 tp_cable =
     Some (tp_cable\<lparr>original_network_id := 9, coderate := 0, modulation := 0\<rparr>) \<and>
   tp_cable\<lparr>original_network_id := 9, coderate := 0, modulation := 0\<rparr> \<noteq> tp_cable"
  by (simp add: parse_nit_def nit_other_ts_def nit_loop.simps nit_entry_used_def nit_apply_def
      parse_descriptors.simps descriptor_case_def dispatch_def descriptor_switch_def
      is_sdt_def is_nit_def tag_defs table_defs no_parser_def w16_def fl0_def tp_cable_def
      new_transponder_def calloc_transponder_def delsys_type_def SYS_DVBT_def SYS_DVBT2_def
      SYS_ATSC_def SYS_DVBC_ANNEX_A_def SYS_DVBC_ANNEX_C_def Let_def)

text \<open>
  Claim C3. The current transponder is terrestrial. An entry of the transport stream
  loop whose transport_stream_id or network_id differs from the current transponder's
  leaves the current transponder unchanged: the loop goes on with the next entry. An
  entry that matches both is applied, and applying changes nothing but
  original_network_id, code rates, guard, transmission, hierarchy and modulation. A
  section for another network leaves the current transponder as it is through the whole
  loop.
\<close>

theorem nit_entry_only_for_tuned:
  assumes "type cur = SCAN_TERRESTRIAL"
      and "6 < section_length"
      and "\<not> uint section_length < uint (w16 b4 b5 AND 0x0FFF) + 4"
  shows "(w16 b0 b1 \<noteq> transport_stream_id cur \<or> nid \<noteq> network_id cur \<longrightarrow>
            nit_loop ext cp fl tid nid (b0 # b1 # b2 # b3 # b4 # b5 # rest) section_length cur =
            nit_loop ext cp fl tid nid
              (drop (nat (uint (w16 b4 b5 AND 0x0FFF) + 6)) (b0 # b1 # b2 # b3 # b4 # b5 # rest))
              (section_length - word_of_int (uint (w16 b4 b5 AND 0x0FFF) + 6)) cur) \<and>
         (w16 b0 b1 = transport_stream_id cur \<and> nid = network_id cur \<longrightarrow>
            nit_loop ext cp fl tid nid (b0 # b1 # b2 # b3 # b4 # b5 # rest) section_length cur =
            (case nit_apply ext cp fl tid nid (w16 b0 b1) (w16 b2 b3) rest
                    (uint (w16 b4 b5 AND 0x0FFF)) cur of
               None \<Rightarrow> None
             | Some cur' \<Rightarrow>
                 nit_loop ext cp fl tid nid
                   (drop (nat (uint (w16 b4 b5 AND 0x0FFF) + 6)) (b0 # b1 # b2 # b3 # b4 # b5 # rest))
                   (section_length - word_of_int (uint (w16 b4 b5 AND 0x0FFF) + 6)) cur')) \<and>
         (\<forall>cur'. nit_apply ext cp fl tid nid (w16 b0 b1) (w16 b2 b3) rest
                    (uint (w16 b4 b5 AND 0x0FFF)) cur = Some cur' \<longrightarrow>
                 cur' = tuning_of cur' cur \<and> original_network_id cur' = w16 b2 b3) \<and>
         (\<forall>bs sl cur'. nid \<noteq> network_id cur \<and>
                 nit_loop ext cp fl tid nid bs sl cur = Some cur' \<longrightarrow> cur' = cur)"
proof -
  note step = nit_loop_step [OF assms(2,3), of ext cp fl tid nid b0 b1 b2 b3 rest cur]
  have skip: "nit_loop ext cp fl tid nid (b0 # b1 # b2 # b3 # b4 # b5 # rest) section_length cur =
            nit_loop ext cp fl tid nid
              (drop (nat (uint (w16 b4 b5 AND 0x0FFF) + 6)) (b0 # b1 # b2 # b3 # b4 # b5 # rest))
              (section_length - word_of_int (uint (w16 b4 b5 AND 0x0FFF) + 6)) cur"
    if "w16 b0 b1 \<noteq> transport_stream_id cur \<or> nid \<noteq> network_id cur"
  proof -
    from that assms(1) have "\<not> nit_entry_used nid (w16 b0 b1) cur"
      by (auto simp: nit_entry_used_def)
    then show ?thesis unfolding step by (simp only: if_False option.case)
  qed
  have use: "nit_loop ext cp fl tid nid (b0 # b1 # b2 # b3 # b4 # b5 # rest) section_length cur =
            (case nit_apply ext cp fl tid nid (w16 b0 b1) (w16 b2 b3) rest
                    (uint (w16 b4 b5 AND 0x0FFF)) cur of
               None \<Rightarrow> None
             | Some cur' \<Rightarrow>
                 nit_loop ext cp fl tid nid
                   (drop (nat (uint (w16 b4 b5 AND 0x0FFF) + 6)) (b0 # b1 # b2 # b3 # b4 # b5 # rest))
                   (section_length - word_of_int (uint (w16 b4 b5 AND 0x0FFF) + 6)) cur')"
    if "w16 b0 b1 = transport_stream_id cur \<and> nid = network_id cur"
  proof -
    from that have "nit_entry_used nid (w16 b0 b1) cur"
      by (simp add: nit_entry_used_def)
    then show ?thesis unfolding step by (simp only: if_True)
  qed
  have fields: "cur' = tuning_of cur' cur \<and> original_network_id cur' = w16 b2 b3"
    if "nit_apply ext cp fl tid nid (w16 b0 b1) (w16 b2 b3) rest
          (uint (w16 b4 b5 AND 0x0FFF)) cur = Some cur'" for cur'
    using that by (rule nit_apply_tuning)
  have other: "cur' = cur"
    if "nid \<noteq> network_id cur \<and> nit_loop ext cp fl tid nid bs sl cur = Some cur'" for bs sl cur'
    using nit_loop_tuning [of ext cp fl tid nid bs sl cur cur'] that assms(1) by simp
  from skip use fields other show ?thesis by blast
qed

definition tp_terr :: transponder where
  "tp_terr = (new_transponder 506000000 SYS_DVBT 0)
     \<lparr>original_network_id := 1, network_id := 1, transport_stream_id := 1000,
      coderate := 9, modulation := 6\<rparr>"

lemmas nit_eval_defs = nit_loop.simps nit_entry_used_def nit_apply_def
  parse_descriptors.simps descriptor_case_def dispatch_def descriptor_switch_def
  is_sdt_def is_nit_def tag_defs table_defs no_parser_def w16_def fl0_def tp_terr_def
  new_transponder_def calloc_transponder_def delsys_type_def SYS_DVBT_def SYS_DVBT2_def
  SYS_ATSC_def SYS_DVBC_ANNEX_A_def SYS_DVBC_ANNEX_C_def Let_def

theorem nit_entry_only_for_tuned_witness:
  "type tp_terr = SCAN_TERRESTRIAL \<and> (6 :: u16) < 8 \<and>
   \<not> uint (8 :: u16) < uint (w16 0xF0 0x02 AND 0x0FFF) + 4 \<and>
   w16 0x07 0xD0 \<noteq> transport_stream_id tp_terr \<and>
   nit_loop no_parser copy_tuning fl0 TABLE_NIT_ACT 1
     [0x07, 0xD0, 0x00, 0x09, 0xF0, 0x02, 0x42, 0x00, 0xDE, 0xAD, 0xBE, 0xEF] 8 tp_terr =
     Some tp_terr \<and>
   w16 0x03 0xE8 = transport_stream_id tp_terr \<and>
   nit_loop no_parser copy_tuning fl0 TABLE_NIT_ACT 1
     [0x03, 0xE8, 0x00, 0x09, 0xF0, 0x02, 0x42, 0x00, 0xDE, 0xAD, 0xBE, 0xEF] 8 tp_terr =
     Some (tp_terr\<lparr>original_network_id := 9, coderate := 0, modulation := 0\<rparr>)"
proof -
  have a: "type tp_terr = SCAN_TERRESTRIAL"
    by (simp add: tp_terr_def delsys_type_def SYS_DVBT_def)
  have b: "(6 :: u16) < 8" by simp
  have c: "\<not> uint (8 :: u16) < uint (w16 0xF0 0x02 AND 0x0FFF) + 4" by (simp add: w16_def)
  have d: "w16 0x07 0xD0 \<noteq> transport_stream_id tp_terr"
    "w16 0x03 0xE8 = transport_stream_id tp_terr"
    by (simp_all add: w16_def tp_terr_def)
  have e: "nit_loop no_parser copy_tuning fl0 TABLE_NIT_ACT 1 [0xDE, 0xAD, 0xBE, 0xEF] 0 t = Some t"
    for t by (simp add: nit_loop.simps)
  have f: "nit_apply no_parser copy_tuning fl0 TABLE_NIT_ACT 1 (w16 0x03 0xE8) (w16 0x00 0x09)
      [0x42, 0x00, 0xDE, 0xAD, 0xBE, 0xEF] (uint (w16 0xF0 0x02 AND 0x0FFF)) tp_terr =
      Some (tp_terr\<lparr>original_network_id := 9, coderate := 0, modulation := 0\<rparr>)"
    by (simp add: nit_eval_defs)
  from nit_entry_only_for_tuned [OF a b c, of "0x07" "0xD0" 1 no_parser copy_tuning fl0
      TABLE_NIT_ACT "0x00" "0x09" "[0x42, 0x00, 0xDE, 0xAD, 0xBE, 0xEF]"]
    nit_entry_only_for_tuned [OF a b c, of "0x03" "0xE8" 1 no_parser copy_tuning fl0
      TABLE_NIT_ACT "0x00" "0x09" "[0x42, 0x00, 0xDE, 0xAD, 0xBE, 0xEF]"]
    a b c d e f
  show ?thesis
    by (simp add: w16_def tp_terr_def)
qed

section \<open>Sections: parse_section, read_sections and the scheduler loop\<close>

text \<open>
  \<open>byte bs i\<close> is \<^verbatim>\<open>buf[i]\<close> for the header of a section. \<^verbatim>\<open>s->buf\<close> is an array of
  \<^verbatim>\<open>SECTION_BUF_SIZE\<close> bytes, so the eight header bytes always exist; a list shorter
  than that stands for an array that holds zeros from there on.
\<close>

definition byte :: "u8 list \<Rightarrow> nat \<Rightarrow> u8" where
  "byte bs i = (if i < length bs then bs ! i else 0)"

text \<open>\<^verbatim>\<open>get_bit\<close> and \<^verbatim>\<open>set_bit\<close> on the bitmap \<^verbatim>\<open>section_done\<close>.\<close>

definition get_bit :: "u8 list \<Rightarrow> nat \<Rightarrow> u8" where
  "get_bit bitfield n = drop_bit (n mod 8) (bitfield ! (n div 8)) AND 1"

definition set_bit :: "u8 list \<Rightarrow> nat \<Rightarrow> u8 list" where
  "set_bit bitfield n = bitfield[n div 8 := (bitfield ! (n div 8)) OR push_bit (n mod 8) 1]"

text \<open>
  The table handlers, with the arguments \<^verbatim>\<open>parse_section\<close> calls them with. What a
  handler does to the database is the parameter \<open>handler\<close> of \<^verbatim>\<open>parse_section\<close>, so
  that what is proved of \<^verbatim>\<open>parse_section\<close> holds whatever the handlers do; the
  handlers \<^verbatim>\<open>parse_pat\<close>, \<^verbatim>\<open>parse_sdt\<close> and \<^verbatim>\<open>parse_nit\<close> are embedded above.
  \<open>table_switch\<close> is the \<^verbatim>\<open>switch(table_id)\<close>.
\<close>

datatype table_call =
    call_parse_pat "u8 list" u16 u16 u32
  | call_parse_pmt "u8 list" u16 u16
  | call_parse_nit "u8 list" u16 int u16 u32
  | call_parse_sdt "u8 list" u16 u16
  | call_parse_psip_vct "u8 list" u16 int u16

definition table_switch ::
  "(table_call \<Rightarrow> 'db \<Rightarrow> 'db) \<Rightarrow> int \<Rightarrow> u8 list \<Rightarrow> u16 \<Rightarrow> u16 \<Rightarrow> u32 \<Rightarrow> 'db \<Rightarrow> 'db" where
  "table_switch handler tid payload section_length ext sflags db =
     (if tid = TABLE_PAT then handler (call_parse_pat payload section_length ext sflags) db
      else if tid = TABLE_PMT then handler (call_parse_pmt payload section_length ext) db
      else if tid = TABLE_NIT_ACT \<or> tid = TABLE_NIT_OTH
        then handler (call_parse_nit payload section_length tid ext sflags) db
      else if tid = TABLE_SDT_ACT \<or> tid = TABLE_SDT_OTH
        then handler (call_parse_sdt payload section_length ext) db
      else if tid = TABLE_VCT_TERR \<or> tid = TABLE_VCT_CABLE
        then handler (call_parse_psip_vct payload section_length tid ext) db
      else db)"

text \<open>
  The segments of a filter. The section_buf \<open>s\<close> and its \<^verbatim>\<open>next_seg\<close> chain \<open>segs\<close>
  form the list \<open>s # segs\<close>. \<open>next_seg_walk\<close> is the \<^verbatim>\<open>while (s->next_seg)\<close> loop:
  it gives the position in that list at which the loop leaves \<^verbatim>\<open>s\<close>.
  \<open>select_segment\<close> gives the position of the section_buf that the section is
  accounted to, and the list, longer by a new section_buf when none matches.
\<close>

fun next_seg_walk :: "int \<Rightarrow> section_buf list \<Rightarrow> nat \<Rightarrow> nat" where
  "next_seg_walk ext [] k = k"
| "next_seg_walk ext (x # xs) k =
     (if table_id_ext x = ext then Suc k else next_seg_walk ext xs (Suc k))"

definition select_segment ::
  "int \<Rightarrow> int \<Rightarrow> int \<Rightarrow> section_buf \<Rightarrow> section_buf list \<Rightarrow> nat \<times> section_buf list" where
  "select_segment tid ext ver s segs =
     (if segmented s \<noteq> 0 \<and> table_id_ext s \<noteq> - 1 \<and> table_id_ext s \<noteq> ext then
        (let k = next_seg_walk ext segs 0;
             last_seg = (s # segs) ! k
         in if table_id_ext last_seg \<noteq> ext
            then (Suc (length segs),
                  s # segs @
                  [calloc_section_buf
                     \<lparr>segmented := segmented last_seg, run_once := run_once last_seg,
                      timeout := timeout last_seg, table_id := tid, table_id_ext := ext,
                      section_version_number := ver\<rparr>])
            else (k, s # segs))
      else (0, s # segs))"

text \<open>The reset when the version number or the table id extension changed.\<close>

definition version_check :: "int \<Rightarrow> int \<Rightarrow> section_buf \<Rightarrow> section_buf" where
  "version_check ext ver s =
     (if section_version_number s \<noteq> ver \<or> table_id_ext s \<noteq> ext
      then s\<lparr>table_id_ext := ext, section_version_number := ver, sectionfilter_done := 0,
             section_done := replicate (length (section_done s)) 0\<rparr>
      else s)"

text \<open>
  The loop over \<^verbatim>\<open>0 .. last_section_number\<close> that looks for a section not yet seen,
  and the value \<^verbatim>\<open>parse_section\<close> returns at its end.
\<close>

definition all_sections_done :: "u8 list \<Rightarrow> u8 \<Rightarrow> bool" where
  "all_sections_done bitfield last_section_number \<longleftrightarrow>
     list_all (\<lambda>i. get_bit bitfield i \<noteq> 0) [0 ..< Suc (unat last_section_number)]"

definition section_return :: "section_buf \<Rightarrow> int" where
  "section_return s = (if segmented s \<noteq> 0 then 0 else if sectionfilter_done s \<noteq> 0 then 1 else 0)"

text \<open>
  \<open>section_step\<close> is the block under \<^verbatim>\<open>if (!get_bit(...))\<close>, \<open>crc_failed\<close> the block
  under \<^verbatim>\<open>if (!crc_check(...))\<close>. \<^verbatim>\<open>crc_check\<close> and \<^verbatim>\<open>repetition_rate\<close> are not part
  of the sources at hand and are parameters. \<^verbatim>\<open>parse_section\<close> gives the return value,
  the section_buf, its chain and the database.
\<close>

definition section_step ::
  "(table_call \<Rightarrow> 'db \<Rightarrow> 'db) \<Rightarrow> int \<Rightarrow> u8 list \<Rightarrow> u16 \<Rightarrow> u16 \<Rightarrow> u8 \<Rightarrow> u8 \<Rightarrow>
   section_buf \<Rightarrow> 'db \<Rightarrow> section_buf \<times> 'db" where
  "section_step handler tid payload section_length ext section_number last_section_number s db =
     (if get_bit (section_done s) (unat section_number) = 0 then
        (let s = s\<lparr>section_done := set_bit (section_done s) (unat section_number)\<rparr>;
             db = table_switch handler tid payload section_length ext (flags s) db
         in (if all_sections_done (section_done s) last_section_number
             then s\<lparr>sectionfilter_done := 1\<rparr> else s, db))
      else (s, db))"

definition crc_failed :: "(scantype \<Rightarrow> int \<Rightarrow> int) \<Rightarrow> t2scan_flags \<Rightarrow> section_buf \<Rightarrow> section_buf"
  where
  "crc_failed repetition_rate fl s =
     (let slow_rep_rate = 30 + repetition_rate (flags_scantype fl) (table_id s);
          s = (if timeout s < slow_rep_rate then s\<lparr>timeout := slow_rep_rate\<rparr> else s);
          list = (case garbage s of None \<Rightarrow> [] | Some g \<Rightarrow> g)
      in s\<lparr>garbage := Some (list @ [buf s])\<rparr>)"

definition parse_section ::
  "(u8 list \<Rightarrow> int \<Rightarrow> bool) \<Rightarrow> (scantype \<Rightarrow> int \<Rightarrow> int) \<Rightarrow> t2scan_flags \<Rightarrow>
   (table_call \<Rightarrow> 'db \<Rightarrow> 'db) \<Rightarrow> section_buf \<Rightarrow> section_buf list \<Rightarrow> 'db \<Rightarrow>
   int \<times> section_buf \<times> section_buf list \<times> 'db" where
  "parse_section crc_check repetition_rate fl handler s segs db =
     (let bs = buf s;
          tid = uint (byte bs 0)
      in if table_id s \<noteq> tid then (- 1, s, segs, db)
         else
           let section_length = w16 (byte bs 1 AND 0x0f) (byte bs 2) - 9
           in if \<not> crc_check bs (uint section_length + 12)
              then (0, crc_failed repetition_rate fl s, segs, db)
              else
                (let ext = w16 (byte bs 3) (byte bs 4);
                     ver = uint (drop_bit 1 (byte bs 5) AND 0x1f);
                     section_number = byte bs 6;
                     last_section_number = byte bs 7;
                     (k, chain) = select_segment tid (uint ext) ver s segs;
                     (cur, db) = section_step handler tid (drop 8 bs) section_length ext
                                   section_number last_section_number
                                   (version_check (uint ext) ver (chain ! k)) db;
                     chain = chain[k := cur]
                 in (section_return cur, hd chain, tl chain, db)))"

text \<open>
  \<^verbatim>\<open>read_sections\<close>: \<open>rd\<close> is what \<^verbatim>\<open>read\<close> (repeated once after
  \<^verbatim>\<open>EOVERFLOW\<close>) returned and left in \<^verbatim>\<open>s->buf\<close>.
\<close>

definition read_sections ::
  "(u8 list \<Rightarrow> int \<Rightarrow> bool) \<Rightarrow> (scantype \<Rightarrow> int \<Rightarrow> int) \<Rightarrow> t2scan_flags \<Rightarrow>
   (table_call \<Rightarrow> 'db \<Rightarrow> 'db) \<Rightarrow> int \<times> u8 list \<Rightarrow> section_buf \<Rightarrow> section_buf list \<Rightarrow> 'db \<Rightarrow>
   int \<times> section_buf \<times> section_buf list \<times> 'db" where
  "read_sections crc_check repetition_rate fl handler rd s segs db =
     (if sectionfilter_done s \<noteq> 0 \<and> segmented s = 0 then (1, s, segs, db)
      else
        let count = fst rd;
            s = s\<lparr>buf := snd rd\<rparr>
        in if count < 0 then (- 1, s, segs, db)
           else if count < 4 then (- 1, s, segs, db)
           else
             let section_length = uint (w16 (byte (buf s) 1 AND 0x0f) (byte (buf s) 2))
             in if count \<noteq> section_length + 3 then (- 1, s, segs, db)
                else
                  (case parse_section crc_check repetition_rate fl handler s segs db of
                     (r, s', segs', db') \<Rightarrow> (if r = 1 then 1 else 0, s', segs', db')))"

text \<open>
  The body of the loop of \<^verbatim>\<open>read_filters\<close> for one running filter: \<open>revents\<close> says
  whether its handle is readable, \<open>now\<close> is \<^verbatim>\<open>time(NULL)\<close>. The result says whether
  the filter is done and whether \<^verbatim>\<open>remove_filter\<close> is called for it.
\<close>

definition read_filters_body ::
  "(u8 list \<Rightarrow> int \<Rightarrow> bool) \<Rightarrow> (scantype \<Rightarrow> int \<Rightarrow> int) \<Rightarrow> t2scan_flags \<Rightarrow>
   (table_call \<Rightarrow> 'db \<Rightarrow> 'db) \<Rightarrow> bool \<Rightarrow> int \<times> u8 list \<Rightarrow> int \<Rightarrow>
   section_buf \<Rightarrow> section_buf list \<Rightarrow> 'db \<Rightarrow>
   bool \<times> bool \<times> section_buf \<times> section_buf list \<times> 'db" where
  "read_filters_body crc_check repetition_rate fl handler revents rd now s segs db =
     (let (r, s', segs', db') =
            (if revents then read_sections crc_check repetition_rate fl handler rd s segs db
             else (0, s, segs, db));
          done = (r = 1);
          removed = ((done \<or> start_time s' + timeout s' < now) \<and> run_once s' \<noteq> 0)
      in (done, removed, s', segs', db'))"

lemma next_seg_walk_le: "next_seg_walk ext xs k \<le> k + length xs"
proof (induction xs arbitrary: k)
  case Nil
  show ?case by simp
next
  case (Cons x xs)
  from Cons.IH [of "Suc k"] show ?case by simp
qed

lemma select_segment_props:
  assumes "select_segment tid ext ver s segs = (k, chain)"
  shows "k < length chain" and "hd chain = s" and "chain \<noteq> []"
    and "set chain \<subseteq> insert (chain ! k) (set (s # segs))"
    and "\<forall>x \<in> set (s # segs). segmented x \<noteq> 0 \<Longrightarrow> \<forall>x \<in> set chain. segmented x \<noteq> 0"
proof -
  have le: "next_seg_walk ext segs 0 < length (s # segs)"
    using next_seg_walk_le [of ext segs 0] by simp
  show "k < length chain" "hd chain = s" "chain \<noteq> []"
    using assms le by (auto simp: select_segment_def Let_def split: if_splits)
  show "set chain \<subseteq> insert (chain ! k) (set (s # segs))"
    using assms le by (auto simp: select_segment_def Let_def nth_append split: if_splits)
  show "\<forall>x \<in> set chain. segmented x \<noteq> 0" if inv: "\<forall>x \<in> set (s # segs). segmented x \<noteq> 0"
  proof -
    have "segmented ((s # segs) ! next_seg_walk ext segs 0) \<noteq> 0"
      using inv le nth_mem by blast
    with assms inv show ?thesis
      by (auto simp: select_segment_def Let_def split: if_splits)
  qed
qed

lemma parse_section_mismatch:
  "table_id s \<noteq> uint (byte (buf s) 0) \<Longrightarrow>
   parse_section crc_check rr fl handler s segs db = (- 1, s, segs, db)"
  by (simp add: parse_section_def Let_def)

lemma parse_section_crc_failed:
  "table_id s = uint (byte (buf s) 0) \<Longrightarrow>
   \<not> crc_check (buf s) (uint (w16 (byte (buf s) 1 AND 0x0f) (byte (buf s) 2) - 9) + 12) \<Longrightarrow>
   parse_section crc_check rr fl handler s segs db = (0, crc_failed rr fl s, segs, db)"
  by (simp add: parse_section_def Let_def)

text \<open>
  C4: \<^verbatim>\<open>setup_filter\<close> sets the timeout to 1 plus the repetition rate of the table id,
  or to 1 plus five times that rate when \<^verbatim>\<open>flags.filter_timeout\<close> is set. When the
  CRC check of a section fails, \<^verbatim>\<open>parse_section\<close> returns 0 (more sections expected),
  raises the timeout to the maximum of its value and 30 plus the repetition rate, appends
  the buffer to the garbage list, and changes nothing else.
\<close>

theorem filter_timeout_policy:
  "timeout (setup_filter fl rr p tid ext ro seg ff) =
     (if 0 < flags_filter_timeout fl then 1 + 5 * rr (flags_scantype fl) tid
      else 1 + rr (flags_scantype fl) tid) \<and>
   (table_id s = uint (byte (buf s) 0) \<and>
    \<not> crc_check (buf s) (uint (w16 (byte (buf s) 1 AND 0x0f) (byte (buf s) 2) - 9) + 12) \<longrightarrow>
      (\<exists>s'. parse_section crc_check rr fl handler s segs db = (0, s', segs, db) \<and>
            timeout s' = max (timeout s) (30 + rr (flags_scantype fl) (table_id s)) \<and>
            garbage s' = Some ((case garbage s of None \<Rightarrow> [] | Some g \<Rightarrow> g) @ [buf s]) \<and>
            s' = s\<lparr>timeout := timeout s', garbage := garbage s'\<rparr>))"
proof -
  have a: "timeout (setup_filter fl rr p tid ext ro seg ff) =
     (if 0 < flags_filter_timeout fl then 1 + 5 * rr (flags_scantype fl) tid
      else 1 + rr (flags_scantype fl) tid)"
    by (simp add: setup_filter_def Let_def)
  have b: "timeout (crc_failed rr fl s) = max (timeout s) (30 + rr (flags_scantype fl) (table_id s))"
    "garbage (crc_failed rr fl s) = Some ((case garbage s of None \<Rightarrow> [] | Some g \<Rightarrow> g) @ [buf s])"
    "crc_failed rr fl s = s\<lparr>timeout := timeout (crc_failed rr fl s),
                              garbage := garbage (crc_failed rr fl s)\<rparr>"
    by (simp_all add: crc_failed_def Let_def max_def)
  from a b parse_section_crc_failed [of s crc_check rr fl handler segs db] show ?thesis
    by blast
qed

text \<open>The initial NIT filter (repetition rate 10), holding a section whose CRC fails.\<close>

definition nit_filter :: section_buf where
  "nit_filter = (setup_filter fl0 (\<lambda>_ _. 10) 16 TABLE_NIT_ACT (- 1) 1 0 SECTION_FLAG_INITIAL)
     \<lparr>buf := [0x40, 0xF0, 0x0D, 0x00, 0x01, 0xC1, 0x00, 0x00,
               0xF0, 0x00, 0xF0, 0x00, 0xDE, 0xAD, 0xBE, 0xEF]\<rparr>"

theorem filter_timeout_policy_witness:
  "timeout (setup_filter fl0 (\<lambda>_ _. 10) 16 TABLE_NIT_ACT (- 1) 1 0 SECTION_FLAG_INITIAL) = 11 \<and>
   timeout (setup_filter (fl0\<lparr>flags_filter_timeout := 1\<rparr>) (\<lambda>_ _. 10) 16 TABLE_NIT_ACT (- 1) 1 0
              SECTION_FLAG_INITIAL) = 51 \<and>
   table_id nit_filter = uint (byte (buf nit_filter) 0) \<and>
   parse_section (\<lambda>_ _. False) (\<lambda>_ _. 10) fl0 (\<lambda>_ (n :: nat). Suc n) nit_filter [] 0 =
     (0, nit_filter\<lparr>timeout := 40, garbage := Some [buf nit_filter]\<rparr>, [], 0)"
proof -
  have a: "table_id nit_filter = uint (byte (buf nit_filter) 0)"
    by (simp add: nit_filter_def setup_filter_def byte_def TABLE_NIT_ACT_def Let_def)
  have b: "timeout nit_filter = 11" "garbage nit_filter = None"
    "flags_scantype fl0 = SCAN_TERRESTRIAL" "flags_filter_timeout fl0 = 0"
    by (simp_all add: nit_filter_def setup_filter_def fl0_def calloc_section_buf_def Let_def)
  from filter_timeout_policy [of fl0 "\<lambda>_ _. 10" 16 TABLE_NIT_ACT "- 1" 1 0 SECTION_FLAG_INITIAL
      nit_filter "\<lambda>_ _. False" "\<lambda>_ (n :: nat). Suc n" "[]" 0]
    filter_timeout_policy [of "fl0\<lparr>flags_filter_timeout := 1\<rparr>" "\<lambda>_ _. 10" 16 TABLE_NIT_ACT "- 1" 1 0
      SECTION_FLAG_INITIAL nit_filter "\<lambda>_ _. False" "\<lambda>_ (n :: nat). Suc n" "[]" 0]
    a b
  show ?thesis by auto
qed

subsection \<open>Segmented filters\<close>

text \<open>Field preservation of the version check and of one step over the completion bitmap.\<close>

lemma version_check_sel [simp]:
  "segmented (version_check ext ver s) = segmented s"
  "run_once (version_check ext ver s) = run_once s"
  "timeout (version_check ext ver s) = timeout s"
  "start_time (version_check ext ver s) = start_time s"
  "table_id (version_check ext ver s) = table_id s"
  "buf (version_check ext ver s) = buf s"
  "flags (version_check ext ver s) = flags s"
  "table_id_ext (version_check ext ver s) = ext"
  "section_version_number (version_check ext ver s) = ver"
  "length (section_done (version_check ext ver s)) = length (section_done s)"
  by (auto simp: version_check_def)

lemma section_step_sel:
  assumes "section_step handler tid payload sl ext sn lsn s db = (s', db')"
  shows "segmented s' = segmented s" "run_once s' = run_once s" "timeout s' = timeout s"
    "start_time s' = start_time s" "table_id s' = table_id s" "buf s' = buf s"
    "flags s' = flags s" "table_id_ext s' = table_id_ext s"
    "section_version_number s' = section_version_number s"
    "length (section_done s') = length (section_done s)"
  using assms by (auto simp: section_step_def Let_def set_bit_def split: if_splits)

lemma parse_section_ok:
  assumes "table_id s = uint (byte (buf s) 0)"
      and "crc_check (buf s) (uint (w16 (byte (buf s) 1 AND 0x0f) (byte (buf s) 2) - 9) + 12)"
  obtains k chain cur db' where
      "select_segment (uint (byte (buf s) 0)) (uint (w16 (byte (buf s) 3) (byte (buf s) 4)))
         (uint (drop_bit 1 (byte (buf s) 5) AND 0x1f)) s segs = (k, chain)"
      "section_step handler (uint (byte (buf s) 0)) (drop 8 (buf s))
         (w16 (byte (buf s) 1 AND 0x0f) (byte (buf s) 2) - 9) (w16 (byte (buf s) 3) (byte (buf s) 4))
         (byte (buf s) 6) (byte (buf s) 7)
         (version_check (uint (w16 (byte (buf s) 3) (byte (buf s) 4)))
            (uint (drop_bit 1 (byte (buf s) 5) AND 0x1f)) (chain ! k)) db = (cur, db')"
      "parse_section crc_check rr fl handler s segs db =
         (section_return cur, hd (chain[k := cur]), tl (chain[k := cur]), db')"
proof -
  obtain k chain where sel:
      "select_segment (uint (byte (buf s) 0)) (uint (w16 (byte (buf s) 3) (byte (buf s) 4)))
         (uint (drop_bit 1 (byte (buf s) 5) AND 0x1f)) s segs = (k, chain)"
    by (cases "select_segment (uint (byte (buf s) 0)) (uint (w16 (byte (buf s) 3) (byte (buf s) 4)))
         (uint (drop_bit 1 (byte (buf s) 5) AND 0x1f)) s segs")
  obtain cur db' where step:
      "section_step handler (uint (byte (buf s) 0)) (drop 8 (buf s))
         (w16 (byte (buf s) 1 AND 0x0f) (byte (buf s) 2) - 9) (w16 (byte (buf s) 3) (byte (buf s) 4))
         (byte (buf s) 6) (byte (buf s) 7)
         (version_check (uint (w16 (byte (buf s) 3) (byte (buf s) 4)))
            (uint (drop_bit 1 (byte (buf s) 5) AND 0x1f)) (chain ! k)) db = (cur, db')"
    by (cases "section_step handler (uint (byte (buf s) 0)) (drop 8 (buf s))
         (w16 (byte (buf s) 1 AND 0x0f) (byte (buf s) 2) - 9) (w16 (byte (buf s) 3) (byte (buf s) 4))
         (byte (buf s) 6) (byte (buf s) 7)
         (version_check (uint (w16 (byte (buf s) 3) (byte (buf s) 4)))
            (uint (drop_bit 1 (byte (buf s) 5) AND 0x1f)) (chain ! k)) db")
  have "parse_section crc_check rr fl handler s segs db =
         (section_return cur, hd (chain[k := cur]), tl (chain[k := cur]), db')"
    using assms sel step by (simp add: parse_section_def Let_def)
  with sel step that show ?thesis by blast
qed

text \<open>
  Claim C6. For a filter whose chain of segments carries the segmented flag, \<^const>\<open>parse_section\<close>
  never returns 1: it returns 0 whenever the table id of the section is the one of the filter
  (and -1 otherwise), also when the completion bitmap is set for every section up to
  \<open>last_section_number\<close>; the chain keeps the flag; \<open>read_sections\<close> never reports the filter as
  done; and the scheduler pass removes it only once \<open>start_time + timeout\<close> has passed.
\<close>

theorem segmented_never_done:
  assumes "segmented s \<noteq> 0" and "\<forall>x \<in> set segs. segmented x \<noteq> 0"
  shows "fst (parse_section crc_check rr fl handler s segs db) \<noteq> 1 \<and>
         (table_id s = uint (byte (buf s) 0) \<longrightarrow>
            fst (parse_section crc_check rr fl handler s segs db) = 0) \<and>
         (case parse_section crc_check rr fl handler s segs db of
            (r, s', segs', db') \<Rightarrow> segmented s' \<noteq> 0 \<and> (\<forall>x \<in> set segs'. segmented x \<noteq> 0)) \<and>
         fst (read_sections crc_check rr fl handler rd s segs db) \<noteq> 1 \<and>
         (case read_filters_body crc_check rr fl handler revents rd now s segs db of
            (done, removed, s', segs', db') \<Rightarrow>
              \<not> done \<and> (removed \<longrightarrow> start_time s' + timeout s' < now))"
proof -
  have ps: "fst (parse_section crc_check rr fl handler s segs db) \<noteq> 1 \<and>
         (table_id s = uint (byte (buf s) 0) \<longrightarrow>
            fst (parse_section crc_check rr fl handler s segs db) = 0) \<and>
         (case parse_section crc_check rr fl handler s segs db of
            (r, s', segs', db') \<Rightarrow> segmented s' \<noteq> 0 \<and> (\<forall>x \<in> set segs'. segmented x \<noteq> 0))"
    if seg: "segmented s \<noteq> 0" "\<forall>x \<in> set segs. segmented x \<noteq> 0"
    for s :: section_buf and segs
  proof (cases "table_id s = uint (byte (buf s) 0)")
    case False
    with seg show ?thesis by (simp add: parse_section_mismatch)
  next
    case match: True
    show ?thesis
    proof (cases "crc_check (buf s) (uint (w16 (byte (buf s) 1 AND 0x0f) (byte (buf s) 2) - 9) + 12)")
      case False
      with match seg show ?thesis
        by (simp add: parse_section_crc_failed crc_failed_def Let_def)
    next
      case True
      from parse_section_ok [where s = s and crc_check = crc_check and handler = handler
          and segs = segs and db = db and rr = rr and fl = fl, OF match True]
      obtain k chain cur db' where sel:
        "select_segment (uint (byte (buf s) 0)) (uint (w16 (byte (buf s) 3) (byte (buf s) 4)))
           (uint (drop_bit 1 (byte (buf s) 5) AND 0x1f)) s segs = (k, chain)"
        and step: "section_step handler (uint (byte (buf s) 0)) (drop 8 (buf s))
           (w16 (byte (buf s) 1 AND 0x0f) (byte (buf s) 2) - 9) (w16 (byte (buf s) 3) (byte (buf s) 4))
           (byte (buf s) 6) (byte (buf s) 7)
           (version_check (uint (w16 (byte (buf s) 3) (byte (buf s) 4)))
              (uint (drop_bit 1 (byte (buf s) 5) AND 0x1f)) (chain ! k)) db = (cur, db')"
        and res: "parse_section crc_check rr fl handler s segs db =
           (section_return cur, hd (chain[k := cur]), tl (chain[k := cur]), db')"
        by blast
      note p = select_segment_props [OF sel]
      have all: "\<forall>x \<in> set chain. segmented x \<noteq> 0"
        using p(5) seg by simp
      have "segmented (chain ! k) \<noteq> 0"
        using all p(1) nth_mem by blast
      then have cur: "segmented cur \<noteq> 0"
        using section_step_sel(1) [OF step] by simp
      have all': "\<forall>x \<in> set (chain[k := cur]). segmented x \<noteq> 0"
        using all cur set_update_subset_insert [of chain k cur] by auto
      have ne: "chain[k := cur] \<noteq> []"
        using p(3) by simp
      then have "hd (chain[k := cur]) \<in> set (chain[k := cur])"
        "set (tl (chain[k := cur])) \<subseteq> set (chain[k := cur])"
        by (simp_all add: list.set_sel(2) subsetI)
      with all' have "segmented (hd (chain[k := cur])) \<noteq> 0"
        "\<forall>x \<in> set (tl (chain[k := cur])). segmented x \<noteq> 0"
        by blast+
      with res cur show ?thesis
        by (simp add: section_return_def)
    qed
  qed
  have rs: "fst (read_sections crc_check rr fl handler rd s segs db) \<noteq> 1"
  proof -
    have "fst (parse_section crc_check rr fl handler (s\<lparr>buf := snd rd\<rparr>) segs db) \<noteq> 1"
      using ps [of "s\<lparr>buf := snd rd\<rparr>" segs] assms by simp
    with assms(1) show ?thesis
      by (auto simp: read_sections_def Let_def split: prod.splits)
  qed
  have rf: "case read_filters_body crc_check rr fl handler revents rd now s segs db of
            (done, removed, s', segs', db') \<Rightarrow>
              \<not> done \<and> (removed \<longrightarrow> start_time s' + timeout s' < now)"
    using rs by (auto simp: read_filters_body_def Let_def split: prod.splits)
  from ps [OF assms] rs rf show ?thesis by simp
qed

text \<open>A handler that counts the table sections dispatched to it.\<close>

definition count_handler :: "table_call \<Rightarrow> nat \<Rightarrow> nat" where
  "count_handler c n = Suc n"

text \<open>A segmented SDT filter holding a complete one-section table (extension 1000, version 0).\<close>

definition seg_filter :: section_buf where
  "seg_filter = (setup_filter fl0 (\<lambda>_ _. 2) 17 TABLE_SDT_ACT (- 1) 1 1 0)
     \<lparr>start_time := 100,
      buf := [0x42, 0xF0, 0x0D, 0x03, 0xE8, 0xC1, 0x00, 0x00,
              0x00, 0x01, 0xFF, 0xFF, 0xDE, 0xAD, 0xBE, 0xEF]\<rparr>"

definition seg_filter_done :: section_buf where
  "seg_filter_done = seg_filter
     \<lparr>table_id_ext := 1000, section_version_number := 0, sectionfilter_done := 1,
      section_done := set_bit (replicate 32 0) 0\<rparr>"

lemmas section_eval_defs = parse_section_def select_segment_def version_check_def
  section_step_def table_switch_def all_sections_done_def section_return_def get_bit_def
  set_bit_def byte_def w16_def setup_filter_def calloc_section_buf_def table_defs Let_def

theorem segmented_never_done_witness:
  "segmented seg_filter \<noteq> 0 \<and>
   table_id seg_filter = uint (byte (buf seg_filter) 0) \<and>
   parse_section (\<lambda>_ _. True) (\<lambda>_ _. 2) fl0 count_handler seg_filter [] 0 =
     (0, seg_filter_done, [], 1) \<and>
   sectionfilter_done seg_filter_done = 1 \<and>
   all_sections_done (section_done seg_filter_done) 0 \<and>
   fst (read_sections (\<lambda>_ _. True) (\<lambda>_ _. 2) fl0 count_handler (16, buf seg_filter)
          seg_filter_done [] 1) = 0 \<and>
   read_filters_body (\<lambda>_ _. True) (\<lambda>_ _. 2) fl0 count_handler False (16, buf seg_filter) 104
     seg_filter_done [] 1 = (False, True, seg_filter_done, [], 1)"
proof -
  have a: "segmented seg_filter \<noteq> 0" "segmented seg_filter_done \<noteq> 0"
    and b: "\<forall>x \<in> set ([] :: section_buf list). segmented x \<noteq> 0"
    and c: "table_id seg_filter = uint (byte (buf seg_filter) 0)"
    by (simp_all add: seg_filter_def seg_filter_done_def setup_filter_def byte_def table_defs Let_def)
  have d: "parse_section (\<lambda>_ _. True) (\<lambda>_ _. 2) fl0 count_handler seg_filter [] 0 =
     (0, seg_filter_done, [], 1)"
    by (simp add: seg_filter_def seg_filter_done_def count_handler_def section_eval_defs)
  have e: "sectionfilter_done seg_filter_done = 1"
    "all_sections_done (section_done seg_filter_done) 0"
    by (simp_all add: seg_filter_done_def all_sections_done_def get_bit_def set_bit_def)
  have f: "fst (read_sections (\<lambda>_ _. True) (\<lambda>_ _. 2) fl0 count_handler (16, buf seg_filter)
          seg_filter_done [] 1) = 0"
    by (simp add: read_sections_def seg_filter_def seg_filter_done_def count_handler_def
        section_eval_defs)
  have g: "read_filters_body (\<lambda>_ _. True) (\<lambda>_ _. 2) fl0 count_handler False (16, buf seg_filter) 104
     seg_filter_done [] 1 = (False, True, seg_filter_done, [], 1)"
    by (simp add: read_filters_body_def seg_filter_def seg_filter_done_def setup_filter_def
        calloc_section_buf_def fl0_def Let_def)
  from segmented_never_done [where crc_check = "\<lambda>_ _. True" and rr = "\<lambda>_ _. 2" and fl = fl0
      and handler = count_handler and db = 0 and rd = "(16, buf seg_filter)"
      and revents = False and now = 104, OF a(1) b]
    a c d e f g
  show ?thesis by simp
qed

subsection \<open>Sections seen before\<close>

text \<open>Setting a bit of the bitmap \<^verbatim>\<open>section_done\<close> (32 bytes) makes \<^verbatim>\<open>get_bit\<close> see it.\<close>

lemma get_bit_set_bit:
  assumes "n div 8 < length bitfield"
  shows "get_bit (set_bit bitfield n) n \<noteq> 0"
proof -
  define y :: u8 where "y = (bitfield ! (n div 8)) OR push_bit (n mod 8) 1"
  have "bit y (n mod 8)"
    by (simp add: y_def bit_or_iff bit_push_bit_iff bit_exp_iff possible_bit_word bit_1_iff)
  then have "odd (drop_bit (n mod 8) y)"
    by (simp add: bit_iff_odd_drop_bit)
  then have "drop_bit (n mod 8) y AND 1 = 1"
    by (simp add: and_one_eq odd_iff_mod_2_eq_one)
  with assms show ?thesis
    by (simp add: get_bit_def set_bit_def y_def)
qed

lemma get_bit_set_bit_u8:
  "length bitfield = 32 \<Longrightarrow> get_bit (set_bit bitfield (unat (b :: u8))) (unat b) \<noteq> 0"
proof (rule get_bit_set_bit)
  assume "length bitfield = 32"
  moreover have "unat b < 256" using unsigned_less [of b, where 'a = nat] by simp
  ultimately show "unat b div 8 < length bitfield" by simp
qed

text \<open>Where the walk over the segments stops.\<close>

lemma next_seg_walk_found:
  "table_id_ext c = ext \<Longrightarrow> \<forall>x \<in> set pre. table_id_ext x \<noteq> ext \<Longrightarrow>
   next_seg_walk ext (pre @ c # post) j = Suc (j + length pre)"
  by (induction pre arbitrary: j) auto

lemma next_seg_walk_none:
  "\<forall>x \<in> set xs. table_id_ext x \<noteq> ext \<Longrightarrow> next_seg_walk ext xs j = j + length xs"
  by (induction xs arbitrary: j) auto

lemma first_match_split:
  "(\<exists>pre c post. xs = pre @ c # post \<and> table_id_ext c = ext \<and>
      (\<forall>x \<in> set pre. table_id_ext x \<noteq> ext)) \<or>
   (\<forall>x \<in> set xs. table_id_ext x \<noteq> ext)"
proof (induction xs)
  case Nil
  show ?case by simp
next
  case (Cons x xs)
  show ?case
  proof (cases "table_id_ext x = ext")
    case True
    then have "x # xs = [] @ x # xs \<and> table_id_ext x = ext \<and> (\<forall>y \<in> set []. table_id_ext y \<noteq> ext)"
      by simp
    then show ?thesis by blast
  next
    case False
    from Cons.IH show ?thesis
    proof
      assume "\<exists>pre c post. xs = pre @ c # post \<and> table_id_ext c = ext \<and>
        (\<forall>x \<in> set pre. table_id_ext x \<noteq> ext)"
      then obtain pre c post where "xs = pre @ c # post" "table_id_ext c = ext"
        "\<forall>x \<in> set pre. table_id_ext x \<noteq> ext" by blast
      with False have "x # xs = (x # pre) @ c # post \<and> table_id_ext c = ext \<and>
        (\<forall>y \<in> set (x # pre). table_id_ext y \<noteq> ext)" by simp
      then show ?thesis by blast
    next
      assume "\<forall>x \<in> set xs. table_id_ext x \<noteq> ext"
      with False show ?thesis by simp
    qed
  qed
qed

text \<open>Selecting the segment again, after the selected segment was given the extension.\<close>

lemma select_segment_again:
  assumes sel: "select_segment tid ext ver s segs = (k, chain)"
      and c: "table_id_ext c = ext" "segmented c = segmented (chain ! k)"
  shows "select_segment tid ext ver (hd (chain[k := c])) (tl (chain[k := c])) = (k, chain[k := c])"
proof (cases "segmented s \<noteq> 0 \<and> table_id_ext s \<noteq> - 1 \<and> table_id_ext s \<noteq> ext")
  case False
  with sel have k: "k = 0" "chain = s # segs"
    by (auto simp: select_segment_def)
  with c show ?thesis
    by (simp add: select_segment_def)
next
  case True
  from first_match_split [of segs ext] show ?thesis
  proof
    assume "\<exists>pre c post. segs = pre @ c # post \<and> table_id_ext c = ext \<and>
      (\<forall>x \<in> set pre. table_id_ext x \<noteq> ext)"
    then obtain pre c0 post where segs: "segs = pre @ c0 # post" and c0: "table_id_ext c0 = ext"
      and pre: "\<forall>x \<in> set pre. table_id_ext x \<noteq> ext" by blast
    have w: "next_seg_walk ext segs 0 = Suc (length pre)"
      using next_seg_walk_found [OF c0 pre, of post 0] segs by simp
    have "(s # segs) ! Suc (length pre) = c0"
      by (simp add: segs)
    with sel True w c0 have k: "k = Suc (length pre)" "chain = s # segs"
      by (auto simp: select_segment_def Let_def)
    have upd: "chain[k := c] = s # pre @ c # post"
      by (simp add: k segs list_update_append)
    have w': "next_seg_walk ext (pre @ c # post) 0 = Suc (length pre)"
      using next_seg_walk_found [OF c(1) pre, of post 0] by simp
    have "(s # pre @ c # post) ! Suc (length pre) = c"
      by simp
    with True w' c(1) show ?thesis
      unfolding upd by (simp add: select_segment_def Let_def k(1))
  next
    assume none: "\<forall>x \<in> set segs. table_id_ext x \<noteq> ext"
    have w: "next_seg_walk ext segs 0 = length segs"
      using next_seg_walk_none [OF none, of 0] by simp
    have "(s # segs) ! length segs \<in> set (s # segs)"
      by (rule nth_mem) simp
    with none True have "table_id_ext ((s # segs) ! length segs) \<noteq> ext"
      by auto
    with sel True w obtain new where k: "k = Suc (length segs)" "chain = s # segs @ [new]"
      by (auto simp: select_segment_def Let_def)
    have upd: "chain[k := c] = s # segs @ [c]"
      by (simp add: k list_update_append)
    have w': "next_seg_walk ext (segs @ [c]) 0 = Suc (length segs)"
      using next_seg_walk_found [OF c(1) none, of "[]" 0] by simp
    have "(s # segs @ [c]) ! Suc (length segs) = c"
      by (simp add: nth_append)
    with True w' c(1) show ?thesis
      unfolding upd by (simp add: select_segment_def Let_def k(1))
  qed
qed


text \<open>The section_buf selected has a bitmap of 32 bytes when all of the chain have one.\<close>

lemma select_segment_length:
  assumes "select_segment tid ext ver s segs = (k, chain)"
      and "\<forall>x \<in> set (s # segs). length (section_done x) = 32"
  shows "length (section_done (chain ! k)) = 32"
proof -
  have "next_seg_walk ext segs 0 < length (s # segs)"
    using next_seg_walk_le [of ext segs 0] by simp
  then have "(s # segs) ! next_seg_walk ext segs 0 \<in> set (s # segs)"
    by (rule nth_mem)
  with assms(2) have "length (section_done ((s # segs) ! next_seg_walk ext segs 0)) = 32"
    by blast
  with assms show ?thesis
    by (auto simp: select_segment_def Let_def nth_append calloc_section_buf_def split: if_splits)
qed

lemma version_check_id:
  "section_version_number c = ver \<Longrightarrow> table_id_ext c = ext \<Longrightarrow> version_check ext ver c = c"
  by (simp add: version_check_def)

lemma section_step_again:
  assumes "section_step handler tid payload sl ext sn lsn c db = (cur, db')"
      and "length (section_done c) = 32"
  shows "section_step handler tid payload sl ext sn lsn cur db'' = (cur, db'')"
  using assms get_bit_set_bit_u8 [of "section_done c" sn]
  by (auto simp: section_step_def Let_def split: if_splits)

text \<open>The run of \<^verbatim>\<open>parse_section\<close> on a section with a valid CRC, step by step.\<close>

lemma parse_section_run:
  assumes "buf s = bs" "table_id s = uint (byte bs 0)"
      and "crc_check bs (uint (w16 (byte bs 1 AND 0x0f) (byte bs 2) - 9) + 12)"
      and "select_segment (uint (byte bs 0)) (uint (w16 (byte bs 3) (byte bs 4)))
             (uint (drop_bit 1 (byte bs 5) AND 0x1f)) s segs = (k, chain)"
      and "section_step handler (uint (byte bs 0)) (drop 8 bs)
             (w16 (byte bs 1 AND 0x0f) (byte bs 2) - 9) (w16 (byte bs 3) (byte bs 4))
             (byte bs 6) (byte bs 7)
             (version_check (uint (w16 (byte bs 3) (byte bs 4)))
                (uint (drop_bit 1 (byte bs 5) AND 0x1f)) (chain ! k)) db = (cur, db')"
  shows "parse_section crc_check rr fl handler s segs db =
           (section_return cur, hd (chain[k := cur]), tl (chain[k := cur]), db')"
  using assms by (simp add: parse_section_def Let_def)

lemma parse_section_duplicate:
  assumes crc: "crc_check (buf s) (uint (w16 (byte (buf s) 1 AND 0x0f) (byte (buf s) 2) - 9) + 12)"
      and ver: "section_version_number s = uint (drop_bit 1 (byte (buf s) 5) AND 0x1f)"
      and ext: "table_id_ext s = uint (w16 (byte (buf s) 3) (byte (buf s) 4))"
      and bit: "get_bit (section_done s) (unat (byte (buf s) 6)) \<noteq> 0"
  shows "parse_section crc_check rr fl handler s segs db =
           (if table_id s = uint (byte (buf s) 0) then section_return s else - 1, s, segs, db)"
proof (cases "table_id s = uint (byte (buf s) 0)")
  case False
  then show ?thesis by (simp add: parse_section_mismatch)
next
  case True
  have sel: "select_segment (uint (byte (buf s) 0)) (uint (w16 (byte (buf s) 3) (byte (buf s) 4)))
      (uint (drop_bit 1 (byte (buf s) 5) AND 0x1f)) s segs = (0, s # segs)"
    using ext by (simp add: select_segment_def)
  have vc: "version_check (uint (w16 (byte (buf s) 3) (byte (buf s) 4)))
      (uint (drop_bit 1 (byte (buf s) 5) AND 0x1f)) ((s # segs) ! 0) = s"
    using ver ext by (simp add: version_check_id)
  have step: "section_step handler (uint (byte (buf s) 0)) (drop 8 (buf s))
      (w16 (byte (buf s) 1 AND 0x0f) (byte (buf s) 2) - 9) (w16 (byte (buf s) 3) (byte (buf s) 4))
      (byte (buf s) 6) (byte (buf s) 7)
      (version_check (uint (w16 (byte (buf s) 3) (byte (buf s) 4)))
         (uint (drop_bit 1 (byte (buf s) 5) AND 0x1f)) ((s # segs) ! 0)) db = (s, db)"
    unfolding vc using bit by (simp add: section_step_def)
  from parse_section_run [where crc_check = crc_check and rr = rr and fl = fl,
      OF refl True crc sel step] True
  show ?thesis
    by simp
qed

lemma parse_section_replay:
  assumes crc: "crc_check (buf s) (uint (w16 (byte (buf s) 1 AND 0x0f) (byte (buf s) 2) - 9) + 12)"
      and len: "\<forall>x \<in> set (s # segs). length (section_done x) = 32"
      and run: "parse_section crc_check rr fl handler s segs db = (r, s', segs', db')"
  shows "parse_section crc_check rr fl handler s' segs' db' = (r, s', segs', db')"
proof (cases "table_id s = uint (byte (buf s) 0)")
  case False
  with run show ?thesis by (auto simp: parse_section_mismatch)
next
  case match: True
  define bs where "bs = buf s"
  define tid where "tid = uint (byte bs 0)"
  define ext where "ext = w16 (byte bs 3) (byte bs 4)"
  define ver where "ver = uint (drop_bit 1 (byte bs 5) AND 0x1f)"
  note hd_defs = bs_def tid_def ext_def ver_def
  from parse_section_ok [where s = s and crc_check = crc_check and handler = handler
      and segs = segs and db = db and rr = rr and fl = fl, OF match crc]
  obtain k chain cur db1 where sel: "select_segment tid (uint ext) ver s segs = (k, chain)"
    and step: "section_step handler tid (drop 8 bs) (w16 (byte bs 1 AND 0x0f) (byte bs 2) - 9) ext
        (byte bs 6) (byte bs 7) (version_check (uint ext) ver (chain ! k)) db = (cur, db1)"
    and res: "parse_section crc_check rr fl handler s segs db =
        (section_return cur, hd (chain[k := cur]), tl (chain[k := cur]), db1)"
    unfolding hd_defs by blast
  from res run have r: "r = section_return cur" "s' = hd (chain[k := cur])"
    "segs' = tl (chain[k := cur])" "db' = db1"
    by simp_all
  note props = select_segment_props [OF sel]
  note cur = section_step_sel [OF step]
  have cur_ext: "table_id_ext cur = uint ext" and cur_ver: "section_version_number cur = ver"
    and cur_seg: "segmented cur = segmented (chain ! k)"
    using cur by simp_all
  have "length (section_done (version_check (uint ext) ver (chain ! k))) = 32"
    using select_segment_length [OF sel len] by simp
  from section_step_again [OF step this]
  have step2: "section_step handler tid (drop 8 bs) (w16 (byte bs 1 AND 0x0f) (byte bs 2) - 9) ext
        (byte bs 6) (byte bs 7) cur db1 = (cur, db1)" .
  have head: "buf s' = bs \<and> table_id s' = table_id s"
  proof (cases k)
    case 0
    with props have "chain ! k = s" "s' = cur"
      by (simp_all add: r hd_conv_nth)
    with cur show ?thesis by (simp add: bs_def)
  next
    case (Suc j)
    with props have "s' = s"
      by (cases chain) (simp_all add: r)
    then show ?thesis by (simp add: bs_def)
  qed
  have sel2: "select_segment tid (uint ext) ver s' segs' = (k, chain[k := cur])"
    unfolding r using select_segment_again [OF sel cur_ext cur_seg] .
  have nth: "chain[k := cur] ! k = cur"
    using props(1) by simp
  have step3: "section_step handler tid (drop 8 bs) (w16 (byte bs 1 AND 0x0f) (byte bs 2) - 9) ext
        (byte bs 6) (byte bs 7) (version_check (uint ext) ver (chain[k := cur] ! k)) db1 = (cur, db1)"
    unfolding nth version_check_id [OF cur_ver cur_ext] by (rule step2)
  have m: "table_id s' = uint (byte bs 0)"
    using head match by (simp add: bs_def)
  have c: "crc_check bs (uint (w16 (byte bs 1 AND 0x0f) (byte bs 2) - 9) + 12)"
    using crc by (simp add: bs_def)
  from head have b: "buf s' = bs" by simp
  from parse_section_run [where crc_check = crc_check and rr = rr and fl = fl,
      OF b m c sel2 [unfolded tid_def ext_def ver_def] step3 [unfolded tid_def ext_def ver_def]]
  show ?thesis
    by (simp add: r)
qed

text \<open>
  Claim C5. For a section with a valid CRC: when the version number and the table id
  extension of the section are those of the filter and the bit of \<open>section_number\<close> is
  set in \<^verbatim>\<open>section_done\<close>, \<^const>\<open>parse_section\<close> gives back the filter, its segments and the
  database as they were, whatever the table handlers are (none is called), and returns
  what the unchanged filter state says. And for every filter whose bitmaps have their 32
  bytes, running \<^verbatim>\<open>parse_section\<close> again on the state and the database that a first run
  on that section left gives that same state, database and return value.
\<close>

theorem section_dispatch_idempotent:
  assumes "crc_check (buf s) (uint (w16 (byte (buf s) 1 AND 0x0f) (byte (buf s) 2) - 9) + 12)"
  shows "(section_version_number s = uint (drop_bit 1 (byte (buf s) 5) AND 0x1f) \<and>
          table_id_ext s = uint (w16 (byte (buf s) 3) (byte (buf s) 4)) \<and>
          get_bit (section_done s) (unat (byte (buf s) 6)) \<noteq> 0 \<longrightarrow>
            parse_section crc_check rr fl handler s segs db =
              (if table_id s = uint (byte (buf s) 0) then section_return s else - 1, s, segs, db)) \<and>
         ((\<forall>x \<in> set (s # segs). length (section_done x) = 32) \<longrightarrow>
            (case parse_section crc_check rr fl handler s segs db of
               (r, s', segs', db') \<Rightarrow>
                 parse_section crc_check rr fl handler s' segs' db' = (r, s', segs', db')))"
proof (intro conjI impI)
  assume "section_version_number s = uint (drop_bit 1 (byte (buf s) 5) AND 0x1f) \<and>
          table_id_ext s = uint (w16 (byte (buf s) 3) (byte (buf s) 4)) \<and>
          get_bit (section_done s) (unat (byte (buf s) 6)) \<noteq> 0"
  with assms show "parse_section crc_check rr fl handler s segs db =
      (if table_id s = uint (byte (buf s) 0) then section_return s else - 1, s, segs, db)"
    by (simp add: parse_section_duplicate)
next
  assume len: "\<forall>x \<in> set (s # segs). length (section_done x) = 32"
  obtain r s' segs' db' where run:
    "parse_section crc_check rr fl handler s segs db = (r, s', segs', db')"
    by (cases "parse_section crc_check rr fl handler s segs db")
  from parse_section_replay [OF assms len run] run
  show "case parse_section crc_check rr fl handler s segs db of
          (r, s', segs', db') \<Rightarrow>
            parse_section crc_check rr fl handler s' segs' db' = (r, s', segs', db')"
    by simp
qed

text \<open>An SDT filter, not segmented, holding a complete one-section table, before and after the
  section is parsed.\<close>

definition sdt_filter :: section_buf where
  "sdt_filter = (setup_filter fl0 (\<lambda>_ _. 2) 17 TABLE_SDT_ACT (- 1) 1 0 0)
     \<lparr>buf := [0x42, 0xF0, 0x0D, 0x03, 0xE8, 0xC1, 0x00, 0x00,
              0x00, 0x01, 0xFF, 0xFF, 0xDE, 0xAD, 0xBE, 0xEF]\<rparr>"

definition sdt_filter_done :: section_buf where
  "sdt_filter_done = sdt_filter
     \<lparr>table_id_ext := 1000, section_version_number := 0, sectionfilter_done := 1,
      section_done := set_bit (replicate 32 0) 0\<rparr>"

theorem section_dispatch_idempotent_witness:
  "parse_section (\<lambda>_ _. True) (\<lambda>_ _. 2) fl0 count_handler sdt_filter [] 0 =
     (1, sdt_filter_done, [], 1) \<and>
   section_version_number sdt_filter_done = uint (drop_bit 1 (byte (buf sdt_filter_done) 5) AND 0x1f) \<and>
   table_id_ext sdt_filter_done = uint (w16 (byte (buf sdt_filter_done) 3) (byte (buf sdt_filter_done) 4)) \<and>
   get_bit (section_done sdt_filter_done) (unat (byte (buf sdt_filter_done) 6)) \<noteq> 0 \<and>
   parse_section (\<lambda>_ _. True) (\<lambda>_ _. 2) fl0 count_handler sdt_filter_done [] 1 =
     (1, sdt_filter_done, [], 1)"
proof -
  have d: "parse_section (\<lambda>_ _. True) (\<lambda>_ _. 2) fl0 count_handler sdt_filter [] 0 =
     (1, sdt_filter_done, [], 1)"
    by (simp add: sdt_filter_def sdt_filter_done_def count_handler_def section_eval_defs)
  have len: "\<forall>x \<in> set (sdt_filter # []). length (section_done x) = 32"
    by (simp add: sdt_filter_def setup_filter_def calloc_section_buf_def Let_def)
  have dup: "section_version_number sdt_filter_done =
      uint (drop_bit 1 (byte (buf sdt_filter_done) 5) AND 0x1f)"
    "table_id_ext sdt_filter_done =
      uint (w16 (byte (buf sdt_filter_done) 3) (byte (buf sdt_filter_done) 4))"
    "get_bit (section_done sdt_filter_done) (unat (byte (buf sdt_filter_done) 6)) \<noteq> 0"
    by (simp_all add: sdt_filter_def sdt_filter_done_def byte_def w16_def get_bit_def set_bit_def)
  have m: "table_id sdt_filter_done = uint (byte (buf sdt_filter_done) 0)"
    "section_return sdt_filter_done = 1"
    by (simp_all add: sdt_filter_def sdt_filter_done_def setup_filter_def byte_def table_defs
        section_return_def Let_def)
  from section_dispatch_idempotent [where crc_check = "\<lambda>_ _. True" and rr = "\<lambda>_ _. 2"
      and fl = fl0 and handler = count_handler and s = sdt_filter_done and segs = "[]" and db = 1]
    section_dispatch_idempotent [where crc_check = "\<lambda>_ _. True" and rr = "\<lambda>_ _. 2"
      and fl = fl0 and handler = count_handler and s = sdt_filter and segs = "[]" and db = 0]
    d len dup m
  show ?thesis by simp
qed

section \<open>The transponder lists and de-duplication\<close>

text \<open>
  \<^verbatim>\<open>is_nearly_same_frequency\<close>: equal, or less than 750 kHz apart. The subtraction is
  on \<^verbatim>\<open>uint32_t\<close> and always takes the smaller value from the larger.
\<close>

definition is_nearly_same_frequency :: "u32 \<Rightarrow> u32 \<Rightarrow> scantype \<Rightarrow> bool" where
  "is_nearly_same_frequency f1 f2 ty =
     (if f1 = f2 then True
      else let diff = (if f1 > f2 then f1 - f2 else f2 - f1)
           in if diff < 750000 then True else False)"

text \<open>
  The lists of \<^verbatim>\<open>tools.c\<close> are intrusive: a list (\<^verbatim>\<open>cList\<close>) holds the pointers
  \<^verbatim>\<open>first\<close> and \<^verbatim>\<open>last\<close> and the number of items, and every item begins with the
  members of \<^verbatim>\<open>cItem\<close>, which link it to its neighbours. \<^verbatim>\<open>scan.c\<close> puts one and the
  same \<^verbatim>\<open>struct transponder\<close> on \<^verbatim>\<open>new_transponders\<close>, on \<^verbatim>\<open>output_transponders\<close>
  and on \<^verbatim>\<open>scanned_transponders\<close>, and its loops over any of the three start at the
  list's \<^verbatim>\<open>first\<close> and follow the one member \<^verbatim>\<open>next\<close> of the transponder. So in this
  section the store holds, with every transponder, its link members; the address of a
  transponder is its index in \<open>heap\<close>, and \<open>None\<close> is \<^verbatim>\<open>NULL\<close>. (The section on
  \<^verbatim>\<open>alloc_transponder\<close> above is about the value returned and works on the sequence of
  transponders that the walk over the new list visits.)
\<close>

record cList =
  first :: "nat option"
  last_item :: "nat option"
  count :: u32

record item = transponder +
  prev :: "nat option"
  "next" :: "nat option"
  index :: u32

text \<open>
  Modelled from the spec: \<^verbatim>\<open>NewList\<close> and \<^verbatim>\<open>AddItem\<close> (\<^verbatim>\<open>tools.c\<close>) are not part of
  the sources at hand. The specification says that the implementation relies on raw
  pointer-linked lists embedded in the entities (section 9) and that the lists keep the
  order of insertion (section 3); \<^verbatim>\<open>scan.c\<close> reads \<^verbatim>\<open>list->first\<close>, \<^verbatim>\<open>list->count\<close>,
  \<^verbatim>\<open>item->next\<close> and \<^verbatim>\<open>item->index\<close>. \<^verbatim>\<open>NewList\<close> gives the empty list.
  \<^verbatim>\<open>AddItem\<close> makes the item the last one of the list: its \<^verbatim>\<open>index\<close> becomes the
  count, its \<^verbatim>\<open>prev\<close> the former last item and its \<^verbatim>\<open>next\<close> \<^verbatim>\<open>NULL\<close>; the \<^verbatim>\<open>next\<close> of
  the former last item (in an empty list, the \<^verbatim>\<open>first\<close> of the list) points to it.
  Whatever other list the item or the former last item is on is not looked at. A
  pointer that is not the address of an item is undefined behaviour, \<open>None\<close>.
\<close>

definition NewList :: cList where
  "NewList = \<lparr>first = None, last_item = None, count = 0\<rparr>"

definition AddItem :: "cList \<Rightarrow> nat \<Rightarrow> item list \<Rightarrow> (cList \<times> item list) option" where
  "AddItem list a h =
     (if a < length h then
        (let h1 = h[a := (h ! a)\<lparr>index := count list, prev := last_item list, next := None\<rparr>]
         in if count list = 0
            then Some (list\<lparr>first := Some a, last_item := Some a, count := count list + 1\<rparr>, h1)
            else
              (case last_item list of
                 None \<Rightarrow> None
               | Some p \<Rightarrow>
                   if p < length h1
                   then Some (list\<lparr>last_item := Some a, count := count list + 1\<rparr>,
                              h1[p := (h1 ! p)\<lparr>next := Some a\<rparr>])
                   else None))
      else None)"

text \<open>The globals of \<^verbatim>\<open>scan.c\<close> that hold transponders.\<close>

record lists =
  heap :: "item list"
  new_transponders :: cList
  scanned_transponders :: cList
  output_transponders :: cList
  current_tp :: nat

definition lists_init :: lists where
  "lists_init = \<lparr>heap = [], new_transponders = NewList, scanned_transponders = NewList,
     output_transponders = NewList, current_tp = 0\<rparr>"

text \<open>
  A loop \<^verbatim>\<open>for (t = list->first; t; t = t->next)\<close> may run forever when the links
  form a cycle; the loops are partial functions, not returning being \<open>None\<close>.
  \<open>list_walk\<close> gives the transponders such a loop visits when it has no exit of its
  own, as the loops of \<^verbatim>\<open>dump_lists\<close> over \<^verbatim>\<open>output_transponders\<close>.
\<close>

partial_function (option) list_walk :: "item list \<Rightarrow> nat option \<Rightarrow> nat list option" where
  "list_walk h p =
     (case p of
        None \<Rightarrow> Some []
      | Some a \<Rightarrow>
          if a < length h
          then Option.bind (list_walk h (next (h ! a))) (\<lambda>as. Some (a # as))
          else None)"

definition output_walk :: "lists \<Rightarrow> nat list option" where
  "output_walk st = list_walk (heap st) (first (output_transponders st))"

text \<open>
  \<^verbatim>\<open>alloc_transponder\<close> on this store. \<open>known_walk\<close> is its loop over the new list;
  the transponder \<^verbatim>\<open>t\<close>, zeroed by \<^verbatim>\<open>calloc\<close> and filled in as \<open>new_transponder\<close>
  says, is returned in either case.
\<close>

definition calloc_item :: "transponder \<Rightarrow> item" where
  "calloc_item t = transponder.extend t (item.fields None None 0)"

partial_function (option) known_walk ::
  "item list \<Rightarrow> item \<Rightarrow> u32 \<Rightarrow> u8 \<Rightarrow> nat option \<Rightarrow> bool option" where
  "known_walk h t f pol p =
     (case p of
        None \<Rightarrow> Some False
      | Some a \<Rightarrow>
          if a < length h then
            (let tn = h ! a in
             if delsys tn \<noteq> delsys t then known_walk h t f pol (next tn)
             else if frequency tn = f then
               (if type t = SCAN_SATELLITE \<and> pol \<noteq> polarization tn
                then known_walk h t f pol (next tn)
                else Some True)
             else known_walk h t f pol (next tn))
          else None)"

definition alloc_transponder_linked :: "u32 \<Rightarrow> u32 \<Rightarrow> u8 \<Rightarrow> lists \<Rightarrow> (nat \<times> lists) option" where
  "alloc_transponder_linked f d pol st =
     (let t = calloc_item (new_transponder f d pol);
          a = length (heap st);
          h1 = heap st @ [t]
      in case (if 0 < f then known_walk h1 t f pol (first (new_transponders st))
               else Some False) of
           None \<Rightarrow> None
         | Some known \<Rightarrow>
             if \<not> known then
               (case AddItem (new_transponders st) a h1 of
                  None \<Rightarrow> None
                | Some (l, h2) \<Rightarrow> Some (a, st\<lparr>heap := h2, new_transponders := l\<rparr>))
             else Some (a, st\<lparr>heap := h1\<rparr>))"

text \<open>
  \<^verbatim>\<open>is_already_found_transponder\<close>: the loop starts at \<^verbatim>\<open>output_transponders->first\<close>.
  A transponder of the same type at nearly the same frequency is passed over; of the
  others, the first with the same original_network_id, network_id and
  transport_stream_id makes the result 1.
\<close>

partial_function (option) is_already_found_loop ::
  "item list \<Rightarrow> item \<Rightarrow> nat option \<Rightarrow> bool option" where
  "is_already_found_loop h tn p =
     (case p of
        None \<Rightarrow> Some False
      | Some a \<Rightarrow>
          if a < length h then
            (let t = h ! a in
             if type t = type tn \<and> is_nearly_same_frequency (frequency t) (frequency tn) (type t)
             then is_already_found_loop h tn (next t)
             else if original_network_id t \<noteq> original_network_id tn
             then is_already_found_loop h tn (next t)
             else if network_id t \<noteq> network_id tn then is_already_found_loop h tn (next t)
             else if transport_stream_id t \<noteq> transport_stream_id tn
             then is_already_found_loop h tn (next t)
             else Some True)
          else None)"

definition is_already_found_transponder :: "lists \<Rightarrow> nat \<Rightarrow> bool option" where
  "is_already_found_transponder st tn =
     (if tn < length (heap st)
      then is_already_found_loop (heap st) (heap st ! tn) (first (output_transponders st))
      else None)"

text \<open>
  \<^verbatim>\<open>is_already_scanned_transponder\<close>, called with the address of the local \<^verbatim>\<open>test\<close>,
  which is on no list. The \<^verbatim>\<open>default\<close> of its \<^verbatim>\<open>switch\<close> is \<^verbatim>\<open>fatal\<close>, \<open>None\<close>.
\<close>

partial_function (option) is_already_scanned_loop ::
  "item list \<Rightarrow> transponder \<Rightarrow> nat option \<Rightarrow> bool option" where
  "is_already_scanned_loop h tn p =
     (case p of
        None \<Rightarrow> Some False
      | Some a \<Rightarrow>
          if a < length h then
            (let t = h ! a in
             if type tn = SCAN_TERRESTRIAL \<or> type tn = SCAN_CABLE then
               (if type t = type tn \<and>
                   is_nearly_same_frequency (frequency t) (frequency tn) (type t)
                then Some True
                else is_already_scanned_loop h tn (next t))
             else if type tn = SCAN_TERRCABLE_ATSC then
               (if type t = type tn \<and>
                   is_nearly_same_frequency (frequency t) (frequency tn) (type t) \<and>
                   modulation t = modulation tn
                then Some (drop_bit 8 (source t) = 64)
                else is_already_scanned_loop h tn (next t))
             else None)
          else None)"

definition is_already_scanned_transponder :: "lists \<Rightarrow> transponder \<Rightarrow> bool option" where
  "is_already_scanned_transponder st tn =
     is_already_scanned_loop (heap st) tn (first (scanned_transponders st))"

text \<open>
  \<^verbatim>\<open>network_scan\<close> from the call of \<^verbatim>\<open>alloc_transponder\<close> on, that is, once the
  frontend has locked. \<open>ptest\<close> is the local \<^verbatim>\<open>test\<close> that \<^verbatim>\<open>ptest\<close> points to (its
  type is \<^verbatim>\<open>flags.scantype\<close>), \<open>f\<close> the frequency, \<open>dedup\<close> is \<^verbatim>\<open>flags.dedup\<close>.
  \<^verbatim>\<open>copy_fe_params\<close> is not part of the sources at hand and is a parameter
  (destination first). \<^verbatim>\<open>initial_table_lookup\<close> and \<^verbatim>\<open>scan_tp\<close> run section filters on
  the device; what the sections they receive do to the transponder \<^verbatim>\<open>current_tp\<close>
  points to is a parameter: \<open>lookup\<close> gives the return value and the transponder after
  the initial PAT and NIT, \<open>scan\<close> the transponder after the service scan.
\<close>

definition on_tp :: "nat \<Rightarrow> (item \<Rightarrow> item) \<Rightarrow> lists \<Rightarrow> lists" where
  "on_tp a f st = st\<lparr>heap := (heap st)[a := f (heap st ! a)]\<rparr>"

definition init_tp :: "nat \<Rightarrow> lists \<Rightarrow> lists" where
  "init_tp t st = on_tp t (\<lambda>x. x\<lparr>network_name := None\<rparr>) (st\<lparr>current_tp := t\<rparr>)"

definition AddItem_output :: "lists \<Rightarrow> lists option" where
  "AddItem_output st =
     (case AddItem (output_transponders st) (current_tp st) (heap st) of
        None \<Rightarrow> None
      | Some (l, h) \<Rightarrow> Some (st\<lparr>heap := h, output_transponders := l\<rparr>))"

definition AddItem_scanned :: "lists \<Rightarrow> lists option" where
  "AddItem_scanned st =
     (case AddItem (scanned_transponders st) (current_tp st) (heap st) of
        None \<Rightarrow> None
      | Some (l, h) \<Rightarrow> Some (st\<lparr>heap := h, scanned_transponders := l\<rparr>))"

text \<open>\<^verbatim>\<open>scan_tp(); AddItem(output_transponders, current_tp);\<close>\<close>

definition scan_and_add :: "(item \<Rightarrow> item) \<Rightarrow> lists \<Rightarrow> lists option" where
  "scan_and_add scan st = AddItem_output (on_tp (current_tp st) scan st)"

definition network_scan_locked ::
  "nat \<Rightarrow> transponder \<Rightarrow> (item \<Rightarrow> transponder \<Rightarrow> item) \<Rightarrow> (item \<Rightarrow> bool \<times> item) \<Rightarrow>
   (item \<Rightarrow> item) \<Rightarrow> u32 \<Rightarrow> lists \<Rightarrow> lists option" where
  "network_scan_locked dedup ptest copy_fe_params lookup scan f st =
     (case alloc_transponder_linked f (delsys ptest) (polarization ptest) st of
        None \<Rightarrow> None
      | Some (t, st) \<Rightarrow>
          (let st = on_tp t (\<lambda>x. x\<lparr>type := type ptest, source := 0, network_name := None\<rparr>) st;
               st = init_tp t st;
               st = on_tp t (\<lambda>x. copy_fe_params x ptest) st
           in if type ptest = SCAN_TERRCABLE_ATSC then Some st
              else
                (let r = lookup (heap st ! current_tp st);
                     st = on_tp (current_tp st) (\<lambda>_. snd r) st
                 in if fst r then
                      (case (if dedup = 2 then scan_and_add scan st
                             else if dedup = 1 then
                               (case is_already_found_transponder st (current_tp st) of
                                  None \<Rightarrow> None
                                | Some isDuplicate \<Rightarrow>
                                    if isDuplicate then Some st else scan_and_add scan st)
                             else scan_and_add scan st) of
                         None \<Rightarrow> None
                       | Some st \<Rightarrow> AddItem_scanned st)
                    else Some st)))"

text \<open>
  On this store, too, \<^verbatim>\<open>alloc_transponder\<close> returns the transponder it has just
  allocated, filled in as \<open>new_transponder\<close> says, whether or not the new list holds a
  transponder with that frequency; of the transponders that were there it changes
  nothing but the links.
\<close>

lemma truncate_links [simp]:
  "transponder.truncate (x\<lparr>index := i\<rparr>) = transponder.truncate x"
  "transponder.truncate (x\<lparr>prev := p\<rparr>) = transponder.truncate x"
  "transponder.truncate (x\<lparr>next := n\<rparr>) = transponder.truncate x"
  by (simp_all add: transponder.truncate_def)

lemma map_truncate_update:
  "transponder.truncate v = transponder.truncate (h ! a) \<Longrightarrow>
   map transponder.truncate (h[a := v]) = map transponder.truncate h"
proof (cases "a < length h")
  case True
  assume "transponder.truncate v = transponder.truncate (h ! a)"
  with True show ?thesis
    by (simp add: map_update list_update_same_conv)
next
  case False
  then have "h[a := v] = h" by (simp add: list_update_beyond)
  then show ?thesis by simp
qed

lemma AddItem_truncate:
  assumes "AddItem l a h = Some (l', h')"
  shows "map transponder.truncate h' = map transponder.truncate h"
proof -
  define h1 where "h1 = h[a := (h ! a)\<lparr>index := count l, prev := last_item l, next := None\<rparr>]"
  have h1: "map transponder.truncate h1 = map transponder.truncate h"
    unfolding h1_def by (rule map_truncate_update) simp
  have h2: "map transponder.truncate (h1[p := (h1 ! p)\<lparr>next := Some a\<rparr>]) =
      map transponder.truncate h" for p
    using map_truncate_update [of "(h1 ! p)\<lparr>next := Some a\<rparr>" h1 p] h1 by simp
  from assms have "h' = h1 \<or> (\<exists>p. h' = h1[p := (h1 ! p)\<lparr>next := Some a\<rparr>])"
    by (auto simp: AddItem_def Let_def h1_def split: if_splits option.splits)
  with h1 h2 show ?thesis by auto
qed

lemma truncate_calloc_item: "transponder.truncate (calloc_item t) = t"
  by (simp add: calloc_item_def transponder.defs)

lemma alloc_transponder_linked_returns_new:
  assumes "alloc_transponder_linked f d pol st = Some (t, st')"
  shows "t = length (heap st) \<and>
         map transponder.truncate (heap st') =
           map transponder.truncate (heap st) @ [new_transponder f d pol]"
  using assms
  by (auto simp: alloc_transponder_linked_def Let_def truncate_calloc_item
      dest!: AddItem_truncate split: if_splits option.splits)

text \<open>
  The branch of \<^verbatim>\<open>network_scan\<close> for \<^verbatim>\<open>flags.dedup\<close> 2 does to the lists what the
  branch without de-duplication does (it prints the signal information besides).
\<close>

lemma dedup_2_as_dedup_0:
  "network_scan_locked 2 ptest copy_fe_params lookup scan f st =
   network_scan_locked 0 ptest copy_fe_params lookup scan f st"
  by (simp add: network_scan_locked_def Let_def cong: option.case_cong if_cong
      split: option.split prod.split)

text \<open>
  The scan type. \<^verbatim>\<open>main\<close> starts with \<^verbatim>\<open>SCAN_TERRESTRIAL\<close>; \<open>option_m\<close> is its
  \<^verbatim>\<open>case 'm'\<close> (the line for the scan mode \<^verbatim>\<open>c\<close>, cable, is commented out), and
  \<^verbatim>\<open>case 'A'\<close> sets \<^verbatim>\<open>SCAN_TERRCABLE_ATSC\<close>. \<^verbatim>\<open>network_scan\<close> sets \<^verbatim>\<open>test.type\<close> to
  \<^verbatim>\<open>flags.scantype\<close>.
\<close>

definition option_m :: "string \<Rightarrow> scantype \<Rightarrow> scantype" where
  "option_m optarg scantype =
     (let scantype = (if optarg = ''t'' then SCAN_TERRESTRIAL else scantype)
      in if optarg = ''a'' then SCAN_TERRCABLE_ATSC else scantype)"

lemma option_m_scantype:
  "scantype = SCAN_TERRESTRIAL \<or> scantype = SCAN_TERRCABLE_ATSC \<Longrightarrow>
   option_m optarg scantype = SCAN_TERRESTRIAL \<or> option_m optarg scantype = SCAN_TERRCABLE_ATSC"
  by (auto simp: option_m_def)

text \<open>
  The transponder that \<^verbatim>\<open>initial_table_lookup\<close>, and with it \<^verbatim>\<open>parse_nit\<close>, works on
  has the type of \<^verbatim>\<open>test\<close>, and there is no lookup when that type is ATSC: the result
  of \<^verbatim>\<open>network_scan\<close> does not depend on what the lookup would do to any other
  transponder. \<^verbatim>\<open>copy_fe_params\<close> copies the members from \<^verbatim>\<open>frequency\<close> on and leaves
  \<^verbatim>\<open>type\<close> alone.
\<close>

lemma AddItem_length: "AddItem l a h = Some (l', h') \<Longrightarrow> length h' = length h"
  by (auto simp: AddItem_def Let_def split: if_splits option.splits)

lemma alloc_transponder_linked_fresh:
  assumes "alloc_transponder_linked f d pol st = Some (t, st')"
  shows "t = length (heap st)" and "length (heap st') = Suc (length (heap st))"
    and "current_tp st' = current_tp st"
  using assms
  by (auto simp: alloc_transponder_linked_def Let_def dest: AddItem_length
      split: if_splits option.splits)

lemma on_tp_sel [simp]:
  "current_tp (on_tp a g st) = current_tp st"
  "length (heap (on_tp a g st)) = length (heap st)"
  "a < length (heap st) \<Longrightarrow> heap (on_tp a g st) ! a = g (heap st ! a)"
  by (simp_all add: on_tp_def)

lemma lookup_on_scan_type:
  assumes cp: "\<forall>x. type (copy_fe_params x ptest) = type x"
      and same: "\<forall>x. type x = type ptest \<and> type ptest \<noteq> SCAN_TERRCABLE_ATSC \<longrightarrow>
                   lookup x = lookup' x"
  shows "network_scan_locked dedup ptest copy_fe_params lookup scan f st =
         network_scan_locked dedup ptest copy_fe_params lookup' scan f st"
proof (cases "alloc_transponder_linked f (delsys ptest) (polarization ptest) st")
  case None
  then show ?thesis by (simp add: network_scan_locked_def)
next
  case (Some r)
  obtain t st1 where r: "r = (t, st1)" by (cases r)
  note fresh = alloc_transponder_linked_fresh [OF Some [unfolded r]]
  define st2 where "st2 = on_tp t (\<lambda>x. copy_fe_params x ptest)
      (init_tp t (on_tp t (\<lambda>x. x\<lparr>type := type ptest, source := 0, network_name := None\<rparr>) st1))"
  have t: "t < length (heap st1)" using fresh by simp
  have cur: "current_tp st2 = t"
    by (simp add: st2_def init_tp_def)
  have ty: "type (heap st2 ! t) = type ptest"
    using t cp by (simp add: st2_def init_tp_def on_tp_def)
  have "type ptest \<noteq> SCAN_TERRCABLE_ATSC \<Longrightarrow>
        lookup (heap st2 ! current_tp st2) = lookup' (heap st2 ! current_tp st2)"
    using same ty cur by simp
  then show ?thesis
    unfolding network_scan_locked_def Some r
    by (simp add: Let_def st2_def [symmetric])
qed

text \<open>
  The sweep of \<^verbatim>\<open>network_scan\<close> over the frequencies \<open>fs\<close> that the channel list
  gives: \<open>test f\<close> is the local \<^verbatim>\<open>test\<close> as the \<^verbatim>\<open>switch(test.type)\<close> leaves it for
  the frequency \<open>f\<close>; a frequency that \<^verbatim>\<open>is_already_scanned_transponder\<close> reports is
  skipped; \<open>locks f\<close> says whether the frontend then gets a lock on the delivery system
  asked for.
\<close>

fun network_scan_sweep ::
  "nat \<Rightarrow> (u32 \<Rightarrow> transponder) \<Rightarrow> (item \<Rightarrow> transponder \<Rightarrow> item) \<Rightarrow> (u32 \<Rightarrow> bool) \<Rightarrow>
   (item \<Rightarrow> bool \<times> item) \<Rightarrow> (item \<Rightarrow> item) \<Rightarrow> u32 list \<Rightarrow> lists \<Rightarrow> lists option" where
  "network_scan_sweep dedup test copy_fe_params locks lookup scan [] st = Some st"
| "network_scan_sweep dedup test copy_fe_params locks lookup scan (f # fs) st =
     (case is_already_scanned_transponder st (test f) of
        None \<Rightarrow> None
      | Some scanned \<Rightarrow>
          if scanned \<or> \<not> locks f
          then network_scan_sweep dedup test copy_fe_params locks lookup scan fs st
          else
            (case network_scan_locked dedup (test f) copy_fe_params lookup scan f st of
               None \<Rightarrow> None
             | Some st \<Rightarrow> network_scan_sweep dedup test copy_fe_params locks lookup scan fs st))"

text \<open>
  The frequency and the triple (original_network_id, network_id, transport_stream_id)
  of the transponders that the walk from \<^verbatim>\<open>output_transponders->first\<close> visits.
\<close>

definition triple :: "item \<Rightarrow> u16 \<times> u16 \<times> u16" where
  "triple t = (original_network_id t, network_id t, transport_stream_id t)"

definition output_triples :: "lists \<Rightarrow> (u32 \<times> u16 \<times> u16 \<times> u16) list option" where
  "output_triples st =
     map_option (map (\<lambda>a. (frequency (heap st ! a), triple (heap st ! a)))) (output_walk st)"

text \<open>
  A terrestrial sweep in which every frequency locks and carries the multiplex
  (1, 1, 1000): \<open>test_tp f\<close> is \<^verbatim>\<open>test\<close> for DVB-T at the frequency \<open>f\<close>, \<open>copy_freq\<close>
  stands for \<^verbatim>\<open>copy_fe_params\<close>, \<open>lookup_1000\<close> for an initial PAT and NIT that give
  the three ids.
\<close>

definition test_tp :: "u32 \<Rightarrow> transponder" where
  "test_tp f = calloc_transponder\<lparr>type := SCAN_TERRESTRIAL, delsys := SYS_DVBT, frequency := f\<rparr>"

definition copy_freq :: "item \<Rightarrow> transponder \<Rightarrow> item" where
  "copy_freq dest src = dest\<lparr>frequency := frequency src\<rparr>"

definition lookup_1000 :: "item \<Rightarrow> bool \<times> item" where
  "lookup_1000 t =
     (True, t\<lparr>original_network_id := 1, network_id := 1, transport_stream_id := 1000\<rparr>)"

lemmas lists_eval_defs = network_scan_locked_def alloc_transponder_linked_def AddItem_def
  AddItem_output_def AddItem_scanned_def scan_and_add_def on_tp_def init_tp_def lists_init_def
  NewList_def calloc_item_def new_transponder_def calloc_transponder_def test_tp_def
  copy_freq_def lookup_1000_def delsys_type_def SYS_DVBT_def SYS_DVBT2_def SYS_ATSC_def
  SYS_DVBC_ANNEX_A_def SYS_DVBC_ANNEX_C_def is_already_found_transponder_def
  is_nearly_same_frequency_def transponder.defs item.defs Let_def
  known_walk.simps is_already_found_loop.simps is_already_scanned_loop.simps
  is_already_scanned_transponder_def list_walk.simps output_walk_def output_triples_def
  triple_def

text \<open>
  Claim C1 at a sweep over 506 MHz and 522 MHz that both carry the multiplex
  (1, 1, 1000). With \<^verbatim>\<open>flags.dedup\<close> 2 both transponders are appended to
  \<^verbatim>\<open>output_transponders\<close>: the branch for 2 does not call
  \<^verbatim>\<open>is_already_found_transponder\<close>. With \<^verbatim>\<open>flags.dedup\<close> 1 the second transponder is
  reported as a duplicate and not appended (the list counts one item), but
  \<^verbatim>\<open>AddItem(scanned_transponders, current_tp)\<close> links it behind the first one, so the
  walk from \<^verbatim>\<open>output_transponders->first\<close> visits it all the same. In both runs the
  output holds two transponders with the triple (1, 1, 1000).
\<close>

theorem dedup_leaves_duplicates:
  "Option.bind
     (network_scan_sweep 2 test_tp copy_freq (\<lambda>_. True) lookup_1000 (\<lambda>t. t)
        [506000000, 522000000] lists_init) output_triples =
     Some [(506000000, 1, 1, 1000), (522000000, 1, 1, 1000)] \<and>
   map_option (\<lambda>st. count (output_transponders st))
     (network_scan_sweep 2 test_tp copy_freq (\<lambda>_. True) lookup_1000 (\<lambda>t. t)
        [506000000, 522000000] lists_init) = Some 2 \<and>
   Option.bind
     (network_scan_sweep 1 test_tp copy_freq (\<lambda>_. True) lookup_1000 (\<lambda>t. t)
        [506000000, 522000000] lists_init) output_triples =
     Some [(506000000, 1, 1, 1000), (522000000, 1, 1, 1000)] \<and>
   map_option (\<lambda>st. count (output_transponders st))
     (network_scan_sweep 1 test_tp copy_freq (\<lambda>_. True) lookup_1000 (\<lambda>t. t)
        [506000000, 522000000] lists_init) = Some 1"
  by (simp add: lists_eval_defs)

end
